theory Spec2Isabelle
  imports Main "HOL-Library.Sublist"
begin

section \<open>Characters and strings of the JavaScript runtime\<close>

text \<open>
  A JavaScript string is modelled as a \<^typ>\<open>string\<close>, each \<^typ>\<open>char\<close> read as the code
  point of the same number (ASCII and the Latin-1 supplement).  The numbers that the code
  computes, the column indices, are doubles: see the type \<open>number\<close> below.  The fields of
  a date are small integers.
\<close>

definition isSpace :: "char \<Rightarrow> bool" where
  \<comment> \<open>the class \<open>\s\<close>, which is also what \<open>trim()\<close> removes\<close>
  "isSpace c = (let n = (of_char c :: nat) in (9 \<le> n \<and> n \<le> 13) \<or> n = 32 \<or> n = 160)"

definition isLineTerminator :: "char \<Rightarrow> bool" where
  "isLineTerminator c = (let n = (of_char c :: nat) in n = 10 \<or> n = 13)"

definition isDigit :: "char \<Rightarrow> bool" where
  "isDigit c = (let n = (of_char c :: nat) in 48 \<le> n \<and> n \<le> 57)"

definition isUpper :: "char \<Rightarrow> bool" where
  "isUpper c = (let n = (of_char c :: nat) in 65 \<le> n \<and> n \<le> 90)"

definition isLower :: "char \<Rightarrow> bool" where
  "isLower c = (let n = (of_char c :: nat) in 97 \<le> n \<and> n \<le> 122)"

definition isWordChar :: "char \<Rightarrow> bool" where
  \<comment> \<open>the class \<open>\w\<close>\<close>
  "isWordChar c = (isUpper c \<or> isLower c \<or> isDigit c \<or> c = CHR ''_'')"

definition isDot :: "char \<Rightarrow> bool" where
  \<comment> \<open>the class \<open>.\<close>\<close>
  "isDot c = (\<not> isLineTerminator c)"

definition asciiLower :: "char \<Rightarrow> char" where
  \<comment> \<open>case folding of the \<open>i\<close> flag, which never identifies an ASCII letter with a
     character outside ASCII\<close>
  "asciiLower c = (if isUpper c then char_of ((of_char c :: nat) + 32) else c)"

definition lowerChar :: "char \<Rightarrow> char" where
  \<comment> \<open>\<open>toLowerCase()\<close> on one character: \<open>A-Z\<close> and the capital letters of Latin-1\<close>
  "lowerChar c = (let n = (of_char c :: nat) in
     if (65 \<le> n \<and> n \<le> 90) \<or> (192 \<le> n \<and> n \<le> 222 \<and> n \<noteq> 215) then char_of (n + 32) else c)"

definition toLowerCase :: "string \<Rightarrow> string" where
  "toLowerCase s = map lowerChar s"

definition trim :: "string \<Rightarrow> string" where
  "trim s = rev (dropWhile isSpace (rev (dropWhile isSpace s)))"

fun collapseFrom :: "bool \<Rightarrow> string \<Rightarrow> string" where
  \<comment> \<open>the flag says that the previous character belonged to a run of white space\<close>
  "collapseFrom inRun [] = []"
| "collapseFrom inRun (c # cs) =
     (if isSpace c then (if inRun then collapseFrom True cs else CHR '' '' # collapseFrom True cs)
      else c # collapseFrom False cs)"

definition collapseWs :: "string \<Rightarrow> string" where
  \<comment> \<open>\<open>replace(/\s+/g, ' ')\<close>\<close>
  "collapseWs s = collapseFrom False s"

definition normalizeText :: "string \<Rightarrow> string" where
  "normalizeText text = toLowerCase (trim (collapseWs text))"

fun strIncludes :: "string \<Rightarrow> string \<Rightarrow> bool" where
  \<comment> \<open>\<open>s.includes(t)\<close>\<close>
  "strIncludes [] t = (t = [])"
| "strIncludes (c # cs) t = (prefix t (c # cs) \<or> strIncludes cs t)"

definition stripPipes :: "string \<Rightarrow> string" where
  \<comment> \<open>\<open>replace(/\|/g, '')\<close>\<close>
  "stripPipes s = filter (\<lambda>c. c \<noteq> CHR ''|'') s"


section \<open>Regular expressions with the backtracking order of the runtime\<close>

text \<open>
  The source drives almost every decision by a regular expression.  The expressions are
  kept as data and run by one matcher, so that each expression of the source is written
  down as it stands there.  The matcher returns every way of matching at the current
  position, in the order in which a backtracking engine tries them: the first element is
  the match the runtime reports.
\<close>

datatype rx =
    Lit char            \<comment> \<open>a character, case sensitive\<close>
  | LitI char           \<comment> \<open>a character under the flag \<open>i\<close>\<close>
  | Cls "char \<Rightarrow> bool"  \<comment> \<open>a character class\<close>
  | Eps
  | Seq rx rx
  | Alt rx rx
  | Opt rx              \<comment> \<open>\<open>r?\<close>\<close>
  | Star rx             \<comment> \<open>\<open>r*\<close>, greedy\<close>
  | LazyStar rx         \<comment> \<open>\<open>r*?\<close>\<close>
  | Grp rx              \<comment> \<open>a capturing group\<close>
  | Bol                 \<comment> \<open>\<open>^\<close>\<close>
  | Eol                 \<comment> \<open>\<open>$\<close>\<close>
  | WordB               \<comment> \<open>\<open>\b\<close>\<close>

text \<open>
  A matcher state: the text before the current position (reversed), the text from the
  current position on, and the captures closed so far.
\<close>

type_synonym mstate = "string \<times> string \<times> string list"

definition shorter :: "string \<Rightarrow> mstate \<Rightarrow> bool" where
  "shorter s st = (length (fst (snd st)) < length s)"

function m :: "rx \<Rightarrow> mstate \<Rightarrow> mstate list" where
  "m (Lit c) (b, s, cs) =
     (case s of [] \<Rightarrow> [] | x # xs \<Rightarrow> if x = c then [(x # b, xs, cs)] else [])"
| "m (LitI c) (b, s, cs) =
     (case s of [] \<Rightarrow> [] | x # xs \<Rightarrow> if asciiLower x = asciiLower c then [(x # b, xs, cs)] else [])"
| "m (Cls p) (b, s, cs) =
     (case s of [] \<Rightarrow> [] | x # xs \<Rightarrow> if p x then [(x # b, xs, cs)] else [])"
| "m Eps (b, s, cs) = [(b, s, cs)]"
| "m (Seq r1 r2) (b, s, cs) = concat (map (m r2) (m r1 (b, s, cs)))"
| "m (Alt r1 r2) (b, s, cs) = m r1 (b, s, cs) @ m r2 (b, s, cs)"
| "m (Opt r) (b, s, cs) = m r (b, s, cs) @ [(b, s, cs)]"
| "m (Star r) (b, s, cs) =
     concat (map (m (Star r)) (filter (shorter s) (m r (b, s, cs)))) @ [(b, s, cs)]"
| "m (LazyStar r) (b, s, cs) =
     (b, s, cs) # concat (map (m (LazyStar r)) (filter (shorter s) (m r (b, s, cs))))"
| "m (Grp r) (b, s, cs) =
     map (\<lambda>(b', s', cs'). (b', s', cs' @ [take (length s - length s') s])) (m r (b, s, cs))"
| "m Bol (b, s, cs) = (if b = [] then [(b, s, cs)] else [])"
| "m Eol (b, s, cs) = (if s = [] then [(b, s, cs)] else [])"
| "m WordB (b, s, cs) =
     (if (b \<noteq> [] \<and> isWordChar (hd b)) \<noteq> (s \<noteq> [] \<and> isWordChar (hd s)) then [(b, s, cs)] else [])"
  by pat_completeness auto
termination
  by (relation "inv_image (less_than <*lex*> less_than) (\<lambda>(r, st). (size r, length (fst (snd st))))")
     (auto simp: shorter_def)

declare m.simps [simp del]

definition rxMatchAt :: "rx \<Rightarrow> string \<Rightarrow> string \<Rightarrow> mstate option" where
  \<comment> \<open>the match the runtime finds at exactly this position, if any\<close>
  "rxMatchAt r b s = (case m r (b, s, []) of [] \<Rightarrow> None | st # _ \<Rightarrow> Some st)"

fun rxExecFrom :: "rx \<Rightarrow> string \<Rightarrow> string \<Rightarrow> (string \<times> mstate) option" where
  \<comment> \<open>the leftmost match: the (reversed) text before it, and the state after it\<close>
  "rxExecFrom r b [] = (case rxMatchAt r b [] of None \<Rightarrow> None | Some st \<Rightarrow> Some (b, st))"
| "rxExecFrom r b (c # cs) =
     (case rxMatchAt r b (c # cs) of None \<Rightarrow> rxExecFrom r (c # b) cs | Some st \<Rightarrow> Some (b, st))"

definition rxTest :: "rx \<Rightarrow> string \<Rightarrow> bool" where
  \<comment> \<open>\<open>r.test(s)\<close>\<close>
  "rxTest r s = (rxExecFrom r [] s \<noteq> None)"

definition rxReplaceFirst :: "rx \<Rightarrow> (string list \<Rightarrow> string) \<Rightarrow> string \<Rightarrow> string" where
  \<comment> \<open>\<open>s.replace(r, ...)\<close> without the flag \<open>g\<close>; the replacement sees the captures\<close>
  "rxReplaceFirst r f s =
     (case rxExecFrom r [] s of None \<Rightarrow> s
      | Some (b, (b', s', caps)) \<Rightarrow> rev b @ f caps @ s')"

fun rxReplaceAll :: "rx \<Rightarrow> string \<Rightarrow> string \<Rightarrow> string \<Rightarrow> string" where
  \<comment> \<open>\<open>s.replace(r, t)\<close> with the flag \<open>g\<close> and a constant replacement; after an empty
     match the search moves on by one character\<close>
  "rxReplaceAll r t b [] = (case rxMatchAt r b [] of None \<Rightarrow> [] | Some st \<Rightarrow> t)"
| "rxReplaceAll r t b (c # cs) =
     (case rxMatchAt r b (c # cs) of
        None \<Rightarrow> c # rxReplaceAll r t (c # b) cs
      | Some (b', s', caps) \<Rightarrow>
          if length s' < length (c # cs) then t @ rxReplaceAll r t b' s'
          else t @ c # rxReplaceAll r t (c # b) cs)"

fun rxSplitLoop :: "rx \<Rightarrow> string \<Rightarrow> string \<Rightarrow> string \<Rightarrow> string list" where
  \<comment> \<open>the loop of \<open>split\<close>: \<open>piece\<close> is the (reversed) text since the end of the last
     separator; a separator that ends where the piece starts is not one\<close>
  "rxSplitLoop r piece b [] = [rev piece]"
| "rxSplitLoop r piece b (c # cs) =
     (case rxMatchAt r b (c # cs) of
        None \<Rightarrow> rxSplitLoop r (c # piece) (c # b) cs
      | Some (b', s', caps) \<Rightarrow>
          if length s' < length (c # cs) then rev piece # caps @ rxSplitLoop r [] b' s'
          else if piece = [] then rxSplitLoop r [c] (c # b) cs
          else rev piece # caps @ rxSplitLoop r [c] (c # b) cs)"

definition rxSplit :: "rx \<Rightarrow> string \<Rightarrow> string list" where
  \<comment> \<open>\<open>s.split(r)\<close>: the pieces, with the captures of each separator after its piece\<close>
  "rxSplit r s =
     (if s = [] then (case rxMatchAt r [] [] of None \<Rightarrow> [[]] | Some st \<Rightarrow> [])
      else rxSplitLoop r [] [] s)"

subsection \<open>Writing expressions\<close>

definition lit :: "string \<Rightarrow> rx" where
  "lit s = foldr (\<lambda>c r. Seq (Lit c) r) s Eps"

definition litI :: "string \<Rightarrow> rx" where
  "litI s = foldr (\<lambda>c r. Seq (LitI c) r) s Eps"

definition seqs :: "rx list \<Rightarrow> rx" where
  "seqs rs = foldr Seq rs Eps"

fun alts :: "rx list \<Rightarrow> rx" where
  "alts [] = Eps"
| "alts [r] = r"
| "alts (r # rs) = Alt r (alts rs)"

definition plus :: "rx \<Rightarrow> rx" where
  \<comment> \<open>\<open>r+\<close>\<close>
  "plus r = Seq r (Star r)"

definition ws :: rx where
  \<comment> \<open>\<open>\s\<close>\<close>
  "ws = Cls isSpace"

definition digit :: rx where
  \<comment> \<open>\<open>\d\<close>\<close>
  "digit = Cls isDigit"

definition word :: rx where
  \<comment> \<open>\<open>\w\<close>\<close>
  "word = Cls isWordChar"

definition strSplit :: "string \<Rightarrow> string \<Rightarrow> string list" where
  \<comment> \<open>\<open>s.split(sep)\<close> for a non-empty separator string\<close>
  "strSplit sep s = rxSplit (lit sep) s"

definition strJoin :: "string \<Rightarrow> string list \<Rightarrow> string" where
  \<comment> \<open>\<open>xs.join(sep)\<close>\<close>
  "strJoin sep xs = (case xs of [] \<Rightarrow> [] | y # ys \<Rightarrow> y @ concat (map (\<lambda>z. sep @ z) ys))"

fun nth_opt :: "'a list \<Rightarrow> int option \<Rightarrow> 'a option" where
  \<comment> \<open>\<open>xs[i]\<close>, where \<open>i\<close> may be \<open>undefined\<close> or out of range: the result is then
     \<open>undefined\<close>, modelled as \<open>None\<close>\<close>
  "nth_opt xs None = None"
| "nth_opt xs (Some i) = (if 0 \<le> i \<and> i < int (length xs) then Some (xs ! nat i) else None)"


section \<open>Values of the runtime\<close>

datatype error = TypeError
  \<comment> \<open>what calling a method on \<open>undefined\<close> raises\<close>

definition jsStr :: "string option \<Rightarrow> string" where
  \<comment> \<open>the conversion to a string that \<open>test\<close> applies to its argument\<close>
  "jsStr x = (case x of None \<Rightarrow> ''undefined'' | Some s \<Rightarrow> s)"

definition orElse :: "string option \<Rightarrow> string \<Rightarrow> string" where
  \<comment> \<open>\<open>x || d\<close>: \<open>undefined\<close>, \<open>null\<close> and the empty string are falsy\<close>
  "orElse x d = (case x of None \<Rightarrow> d | Some s \<Rightarrow> if s = [] then d else s)"

definition trimOf :: "string option \<Rightarrow> error + string" where
  \<comment> \<open>\<open>x.trim()\<close>\<close>
  "trimOf x = (case x of None \<Rightarrow> Inl TypeError | Some s \<Rightarrow> Inr (trim s))"

fun decimal :: "nat \<Rightarrow> string" where
  \<comment> \<open>\<open>String(n)\<close> for a natural number\<close>
  "decimal n = (if n < 10 then [char_of (48 + n)] else decimal (n div 10) @ [char_of (48 + n mod 10)])"

definition intStr :: "int \<Rightarrow> string" where
  "intStr i = (if i < 0 then CHR ''-'' # decimal (nat (- i)) else decimal (nat i))"

definition padStart2 :: "string \<Rightarrow> string" where
  \<comment> \<open>\<open>padStart(2, '0')\<close>\<close>
  "padStart2 s = replicate (2 - length s) CHR ''0'' @ s"

definition hexVal :: "char \<Rightarrow> nat option" where
  "hexVal c = (let n = (of_char c :: nat) in
     if 48 \<le> n \<and> n \<le> 57 then Some (n - 48)
     else if 97 \<le> n \<and> n \<le> 102 then Some (n - 87)
     else if 65 \<le> n \<and> n \<le> 70 then Some (n - 55)
     else None)"

definition isRadixDigit :: "nat \<Rightarrow> char \<Rightarrow> bool" where
  "isRadixDigit radix c = (case hexVal c of None \<Rightarrow> False | Some v \<Rightarrow> v < radix)"

definition digitsVal :: "nat \<Rightarrow> string \<Rightarrow> int" where
  "digitsVal radix ds =
     foldl (\<lambda>acc c. acc * int radix + (case hexVal c of None \<Rightarrow> 0 | Some v \<Rightarrow> int v)) 0 ds"

text \<open>
  A number of the runtime is an IEEE 754 double.  The code builds its numbers with
  \<open>parseInt\<close> and with \<open>+\<close> only, so each of them is an integer that a double can hold, an
  infinity or \<open>NaN\<close>.  The sign of zero is not kept: the code tests a zero for truth and
  adds to it, and both signs behave alike there.
\<close>

datatype number = Num int | Infinity | NegInfinity | NaN

function bitLength :: "int \<Rightarrow> nat" where
  \<comment> \<open>the number of binary digits of a positive integer\<close>
  "bitLength n = (if n \<le> 0 then 0 else Suc (bitLength (n div 2)))"
  by pat_completeness auto
termination by (relation "measure nat") auto

declare bitLength.simps [simp del]

definition roundMagnitude :: "int \<Rightarrow> int option" where
  \<comment> \<open>the double nearest to an integer that is not negative, ties to the even
     significand of 53 binary digits; \<open>None\<close> when the result is beyond the largest double\<close>
  "roundMagnitude n =
     (if n < 2 ^ 53 then Some n
      else
        (let e = bitLength n - 53;
             q = n div 2 ^ e;
             r = n mod 2 ^ e;
             half = 2 ^ (e - 1);
             q' = (if half < r \<or> (r = half \<and> odd q) then q + 1 else q);
             v = q' * 2 ^ e
         in if 2 ^ 1024 \<le> v then None else Some v))"

definition toDouble :: "int \<Rightarrow> number" where
  \<comment> \<open>the number of the runtime for a mathematical integer\<close>
  "toDouble i =
     (case roundMagnitude \<bar>i\<bar> of
        None \<Rightarrow> (if i < 0 then NegInfinity else Infinity)
      | Some v \<Rightarrow> Num (if i < 0 then - v else v))"

fun numAdd :: "number \<Rightarrow> number \<Rightarrow> number" where
  \<comment> \<open>\<open>a + b\<close> on numbers: the exact sum, rounded\<close>
  "numAdd (Num a) (Num b) = toDouble (a + b)"
| "numAdd NaN b = NaN"
| "numAdd a NaN = NaN"
| "numAdd Infinity NegInfinity = NaN"
| "numAdd NegInfinity Infinity = NaN"
| "numAdd Infinity b = Infinity"
| "numAdd a Infinity = Infinity"
| "numAdd NegInfinity b = NegInfinity"
| "numAdd a NegInfinity = NegInfinity"

definition truthy :: "number \<Rightarrow> bool" where
  \<comment> \<open>a number in a condition: zero and \<open>NaN\<close> are false\<close>
  "truthy x = (x \<noteq> Num 0 \<and> x \<noteq> NaN)"

definition arrayIndex :: "number option \<Rightarrow> int option" where
  \<comment> \<open>the position that \<open>xs[i]\<close> reads for a number \<open>i\<close>: an infinity and \<open>NaN\<close>, like
     \<open>undefined\<close>, name no element of an array\<close>
  "arrayIndex i = (case i of Some (Num k) \<Rightarrow> Some k | _ \<Rightarrow> None)"

definition parseInt :: "string \<Rightarrow> number" where
  \<comment> \<open>\<open>parseInt(s)\<close>.  Leading white space, a sign and the prefix \<open>0x\<close> are read, then the
     longest run of digits; what follows is ignored.  The integer read is rounded to the
     nearest double, as Node does; without a digit the result is \<open>NaN\<close>.\<close>
  "parseInt s =
     (let s1 = dropWhile isSpace s;
          neg = (s1 \<noteq> [] \<and> hd s1 = CHR ''-'');
          s2 = (if s1 \<noteq> [] \<and> (hd s1 = CHR ''-'' \<or> hd s1 = CHR ''+'') then tl s1 else s1);
          hex = (prefix ''0x'' s2 \<or> prefix ''0X'' s2);
          radix = (if hex then 16 else 10);
          s3 = (if hex then drop 2 s2 else s2);
          ds = takeWhile (isRadixDigit radix) s3
      in if ds = [] then NaN
         else toDouble (if neg then - digitsVal radix ds else digitsVal radix ds))"

text \<open>
  \<open>new Date(s)\<close> belongs to the runtime, which leaves the strings it accepts outside the
  ISO format to the implementation.  The date parser is therefore a parameter of every
  function that builds a date: \<open>None\<close> is the invalid date, otherwise the local day of
  the month, the month counted from 0 and the year.
\<close>

record jsdate =
  getDate :: nat
  getMonth :: nat
  getFullYear :: int

type_synonym dateParser = "string \<Rightarrow> jsdate option"

section \<open>Field normalizers\<close>

definition rxCourtLocation :: rx where
  \<comment> \<open>\<open>/CourtServe:\s*(.*?)\s*County Court/i\<close>\<close>
  "rxCourtLocation =
     seqs [litI ''CourtServe:'', Star ws, Grp (LazyStar (Cls isDot)), Star ws, litI ''County Court'']"

definition extractCourtLocation :: "string \<Rightarrow> string option" where
  \<comment> \<open>\<open>None\<close> is \<open>null\<close>\<close>
  "extractCourtLocation titlename =
     (case rxExecFrom rxCourtLocation [] titlename of
        None \<Rightarrow> None
      | Some (b, (b', s', caps)) \<Rightarrow> Some (trim (concat (take 1 caps))))"

definition welshToEnglishMonths :: "(string \<times> string) list" where
  "welshToEnglishMonths =
     [(''Ionawr'', ''January''), (''Chwefror'', ''February''), (''Mawrth'', ''March''),
      (''Ebrill'', ''April''), (''Mai'', ''May''), (''Mehefin'', ''June''),
      (''Gorffennaf'', ''July''), (''Awst'', ''August''), (''Medi'', ''September''),
      (''Hydref'', ''October''), (''Tachwedd'', ''November''), (''Rhagfyr'', ''December'')]"

definition replaceWelsh :: "string \<Rightarrow> string" where
  \<comment> \<open>the loop over the month table, each entry replaced by \<open>/\bwelsh\b/gi\<close>\<close>
  "replaceWelsh part =
     foldl (\<lambda>p (welsh, english). rxReplaceAll (seqs [WordB, litI welsh, WordB]) english [] p)
       part welshToEnglishMonths"

definition rxOrdinal :: rx where
  \<comment> \<open>\<open>/(\d+)(st|nd|rd|th)/i\<close>\<close>
  "rxOrdinal = seqs [Grp (plus digit), Grp (alts [litI ''st'', litI ''nd'', litI ''rd'', litI ''th''])]"

definition stripOrdinal :: "string \<Rightarrow> string" where
  \<comment> \<open>\<open>replace(/(\d+)(st|nd|rd|th)/i, '$1')\<close>\<close>
  "stripOrdinal s = rxReplaceFirst rxOrdinal (\<lambda>caps. concat (take 1 caps)) s"

definition formatDMY :: "jsdate \<Rightarrow> string" where
  "formatDMY d =
     padStart2 (decimal (getDate d)) @ ''/'' @ padStart2 (decimal (getMonth d + 1)) @ ''/''
       @ intStr (getFullYear d)"

fun tryParts :: "dateParser \<Rightarrow> string list \<Rightarrow> string option" where
  \<comment> \<open>the loop over the comma-separated parts: the first part that parses wins\<close>
  "tryParts D [] = None"
| "tryParts D (part # parts) =
     (case D (stripOrdinal (replaceWelsh (trim part))) of
        Some date \<Rightarrow> Some (formatDMY date)
      | None \<Rightarrow> tryParts D parts)"

definition formatCourtDate4 :: "dateParser \<Rightarrow> string \<Rightarrow> string" where
  \<comment> \<open>\<open>formatCourtDate\<close> as it stands in \<open>extractDataTemplate4\<close>, \<open>extractDataTemplate4a\<close>
     and \<open>extractDataTemplate7\<close> (three identical copies)\<close>
  "formatCourtDate4 D courtDatestr =
     (if strIncludes courtDatestr '','' then
        (case tryParts D (strSplit '','' courtDatestr) of Some r \<Rightarrow> r | None \<Rightarrow> [])
      else [])"

definition formatCourtDate5 :: "dateParser \<Rightarrow> string \<Rightarrow> string" where
  \<comment> \<open>\<open>formatCourtDate\<close> as it stands in \<open>extractDataTemplate5\<close>\<close>
  "formatCourtDate5 D courtDatestr =
     (if strIncludes courtDatestr '','' then
        (let parts = strSplit '','' courtDatestr;
             p1 = nth_opt parts (Some 1);
             candidate = (if orElse p1 [] \<noteq> [] then trim (orElse p1 []) else trim courtDatestr);
             candidate = stripOrdinal (replaceWelsh candidate);
             date = D candidate;
             p3 = nth_opt parts (Some 3);
             date = (if date = None \<and> orElse p3 [] \<noteq> [] then
                       (case D (stripOrdinal (trim (orElse p3 []))) of
                          Some fallbackDate \<Rightarrow> Some fallbackDate
                        | None \<Rightarrow> date)
                     else date)
         in case date of None \<Rightarrow> [] | Some d \<Rightarrow> formatDMY d)
      else
        (case D (stripOrdinal courtDatestr) of None \<Rightarrow> [] | Some d \<Rightarrow> formatDMY d))"

section \<open>Documents and records\<close>

text \<open>
  What the extraction reads of a parsed document.  Of a cell: its text, the texts of the
  paragraphs inside it, the attribute \<open>colspan\<close> if present, and whether it carries the
  class \<open>EmptyCellLayoutStyle\<close>.  Of a table: its text and the cells of each of its rows.
  Of the document: the text of the title, of the body, of each paragraph and of each cell
  of any table, and its tables.
\<close>

record cell =
  cellText :: string
  cellParagraphs :: "string list"
  cellColspan :: "string option"
  cellEmptyStyle :: bool

type_synonym row = "cell list"

record table =
  tableText :: string
  tableRows :: "row list"

record document =
  docTitle :: string
  docBody :: string
  docParagraphs :: "string list"
  docTableCells :: "string list"
  docTables :: "table list"

record caseRecord =
  CourtName :: string
  CourtDate :: string
  ClaimNumber :: string
  Claimant :: string
  Defendant :: string
  Duration :: string
  HearingType :: string
  HearingChannel :: string
  Title :: string

text \<open>
  The state a row loop carries from row to row: the header map, the variable
  \<open>courtName\<close> (the argument of the extractor, overwritten in the loop) and the records
  pushed so far.
\<close>

record 'h loopState =
  headersIndex :: 'h
  courtNameVar :: "string option"
  dataOut :: "caseRecord list"

definition colspanOf :: "cell \<Rightarrow> number" where
  \<comment> \<open>\<open>parseInt($(cell).attr('colspan')) || 1\<close>; without the attribute the argument is
     \<open>undefined\<close>, which \<open>parseInt\<close> reads as \<open>NaN\<close>\<close>
  "colspanOf c =
     (let n = (case cellColspan c of None \<Rightarrow> NaN | Some a \<Rightarrow> parseInt a)
      in if truthy n then n else Num 1)"

definition cellsTextOf :: "row \<Rightarrow> string list" where
  \<comment> \<open>\<open>$(cell).text().trim().replace(/\s+/g, ' ')\<close> of each cell\<close>
  "cellsTextOf cells = map (\<lambda>c. collapseWs (trim (cellText c))) cells"


definition notProvided :: string where
  "notProvided = ''Not Provided''"

section \<open>\<open>extractDataTemplate4\<close>\<close>

record headers4 =
  h4claimNumber :: "number option"
  h4claimant :: "number option"
  h4defendant :: "number option"

definition noHeaders4 :: headers4 where
  "noHeaders4 = \<lparr>h4claimNumber = None, h4claimant = None, h4defendant = None\<rparr>"

definition hasKeys4 :: "headers4 \<Rightarrow> bool" where
  \<comment> \<open>\<open>Object.keys(headersIndex).length > 0\<close>\<close>
  "hasKeys4 h = (h4claimNumber h \<noteq> None \<or> h4claimant h \<noteq> None \<or> h4defendant h \<noteq> None)"

definition rxClaimNumber :: rx where
  \<comment> \<open>\<open>/claim\s*number/i\<close>\<close>
  "rxClaimNumber = seqs [litI ''claim'', Star ws, litI ''number'']"

definition rxClaimantExact :: rx where
  \<comment> \<open>\<open>/^(claimant|applicant|petitioner)$/i\<close>\<close>
  "rxClaimantExact =
     seqs [Bol, Grp (alts [litI ''claimant'', litI ''applicant'', litI ''petitioner'']), Eol]"

definition rxDefendantExact :: rx where
  \<comment> \<open>\<open>/^(defendant|respondent)$/i\<close>\<close>
  "rxDefendantExact = seqs [Bol, Grp (alts [litI ''defendant'', litI ''respondent'']), Eol]"

definition mapHeader4 :: "headers4 \<times> number \<Rightarrow> cell \<Rightarrow> headers4 \<times> number" where
  \<comment> \<open>one header cell: the pair is \<open>headersIndex\<close> and \<open>logicalIndex\<close>\<close>
  "mapHeader4 hl c =
     (let h = fst hl; logicalIndex = snd hl;
          headerText = normalizeText (cellText c);
          colspan = colspanOf c;
          h' = (if rxTest rxClaimNumber headerText then h\<lparr>h4claimNumber := Some logicalIndex\<rparr>
                else if rxTest rxClaimantExact headerText then h\<lparr>h4claimant := Some logicalIndex\<rparr>
                else if rxTest rxDefendantExact headerText then h\<lparr>h4defendant := Some logicalIndex\<rparr>
                else h)
      in (h', numAdd logicalIndex colspan))"

definition step4 :: "dateParser \<Rightarrow> string \<Rightarrow> string \<Rightarrow> headers4 loopState \<Rightarrow> row \<Rightarrow> headers4 loopState" where
  \<comment> \<open>the body of \<open>rows.each\<close>\<close>
  "step4 D titlename courtDate st cells =
     (let cellsText = cellsTextOf cells in
      if list_ex (\<lambda>text. rxTest rxClaimNumber (normalizeText text)) cellsText then
        st\<lparr>headersIndex := fst (foldl mapHeader4 (headersIndex st, Num 0) cells)\<rparr>
      else if length cellsText > 1 \<and> hasKeys4 (headersIndex st) then
        if list_all (\<lambda>text. text = []) cellsText then st
        else
          (let h = headersIndex st;
               claimNumber = orElse (nth_opt cellsText (arrayIndex (h4claimNumber h))) [];
               claimant = stripPipes (orElse (nth_opt cellsText (arrayIndex (h4claimant h))) []);
               defendant = stripPipes (orElse (nth_opt cellsText (arrayIndex (h4defendant h))) []);
               courtName = extractCourtLocation titlename;
               rowData = \<lparr>CourtName = orElse courtName [],
                          CourtDate = formatCourtDate4 D courtDate,
                          ClaimNumber = claimNumber,
                          Claimant = claimant,
                          Defendant = defendant,
                          Duration = notProvided,
                          HearingType = notProvided,
                          HearingChannel = notProvided,
                          Title = titlename\<rparr>
           in st\<lparr>courtNameVar := courtName, dataOut := dataOut st @ [rowData]\<rparr>)
      else st)"

definition extractDataTemplate4 ::
  "dateParser \<Rightarrow> string \<Rightarrow> table \<Rightarrow> string \<Rightarrow> string \<Rightarrow> caseRecord list" where
  \<comment> \<open>the second argument is \<open>$('title').text()\<close>\<close>
  "extractDataTemplate4 D title tbl courtName courtDate =
     dataOut (foldl (step4 D (trim title) courtDate)
       \<lparr>headersIndex = noHeaders4, courtNameVar = Some courtName, dataOut = []\<rparr> (tableRows tbl))"

section \<open>\<open>extractDataTemplate4a\<close>\<close>

record headers4a =
  h4a_claimNumber :: "number option"
  h4a_claimant :: "number option"
  h4a_time :: "number option"
  h4a_defendant :: "number option"

definition noHeaders4a :: headers4a where
  "noHeaders4a = \<lparr>h4a_claimNumber = None, h4a_claimant = None, h4a_time = None, h4a_defendant = None\<rparr>"

definition hasKeys4a :: "headers4a \<Rightarrow> bool" where
  "hasKeys4a h = (h4a_claimNumber h \<noteq> None \<or> h4a_claimant h \<noteq> None \<or> h4a_time h \<noteq> None
     \<or> h4a_defendant h \<noteq> None)"

definition cellLines :: "cell \<Rightarrow> string list" where
  \<comment> \<open>the non-empty paragraphs of a cell, each trimmed and with its white space collapsed\<close>
  "cellLines c = filter (\<lambda>lineText. lineText \<noteq> []) (map (\<lambda>p. collapseWs (trim p)) (cellParagraphs c))"

definition cellsText4a :: "row \<Rightarrow> string list" where
  "cellsText4a cells = map (\<lambda>c. strJoin '' | '' (cellLines c)) cells"

definition rxClaimNumberClaimant :: rx where
  \<comment> \<open>\<open>/claim\s*number claimant/i\<close>\<close>
  "rxClaimNumberClaimant = seqs [litI ''claim'', Star ws, litI ''number claimant'']"

definition rxClaimNumberClaimantExact :: rx where
  \<comment> \<open>\<open>/^claim\s*number claimant$/i\<close>\<close>
  "rxClaimNumberClaimantExact = seqs [Bol, litI ''claim'', Star ws, litI ''number claimant'', Eol]"

definition rxTimeExact :: rx where
  \<comment> \<open>\<open>/^time$/i\<close>\<close>
  "rxTimeExact = seqs [Bol, litI ''time'', Eol]"

definition mapHeader4a :: "headers4a \<times> number \<Rightarrow> cell \<Rightarrow> headers4a \<times> number" where
  "mapHeader4a hl c =
     (let h = fst hl; logicalIndex = snd hl;
          headerText = normalizeText (cellText c);
          colspan = colspanOf c;
          h' = (if rxTest rxClaimNumberClaimantExact headerText then
                  h\<lparr>h4a_claimNumber := Some logicalIndex, h4a_claimant := Some (numAdd logicalIndex (Num 1))\<rparr>
                else if rxTest rxTimeExact headerText then h\<lparr>h4a_time := Some logicalIndex\<rparr>
                else if rxTest rxDefendantExact headerText then h\<lparr>h4a_defendant := Some logicalIndex\<rparr>
                else h)
      in (h', numAdd logicalIndex colspan))"

definition splitAtFirstPipe :: "string \<Rightarrow> error + (string \<times> string)" where
  \<comment> \<open>\<open>const [firstPart, ...rest] = text.split(/ \| /)\<close>, then both trimmed\<close>
  "splitAtFirstPipe text =
     (let parts = rxSplit (lit '' | '') text in
      case trimOf (nth_opt parts (Some 0)) of
        Inl e \<Rightarrow> Inl e
      | Inr firstPart \<Rightarrow> Inr (firstPart, trim (strJoin '' | '' (drop 1 parts))))"

definition phoenix :: string where
  "phoenix = ''Phoenix  Community  Housing | Association | (Bellingham & | Downham) | Limited''"

definition parties4a :: "string list \<Rightarrow> error + (string \<times> string)" where
  \<comment> \<open>lines 299 to 321: claimant and defendant of a data row\<close>
  "parties4a cellsText =
     (if length cellsText = 3 then
        (case splitAtFirstPipe (orElse (nth_opt cellsText (Some 2)) []) of
           Inl e \<Rightarrow> Inl e
         | Inr (claimant, defendant) \<Rightarrow>
             (let claimant' = (if claimant = phoenix then stripPipes claimant else claimant);
                  defendant' = (if claimant = phoenix then stripPipes defendant else defendant);
                  defendant'' = (if defendant' = [] then notProvided else defendant');
                  claimant'' = (if claimant' = [] then notProvided else claimant')
              in Inr (claimant'', defendant'')))
      else
        Inr (stripPipes (orElse (nth_opt cellsText (Some 2)) notProvided),
             stripPipes (orElse (nth_opt cellsText (Some 3)) notProvided)))"

definition dataRow4a ::
  "dateParser \<Rightarrow> string \<Rightarrow> string \<Rightarrow> string list \<Rightarrow> error + (string option \<times> caseRecord)" where
  \<comment> \<open>a data row: the new value of \<open>courtName\<close> and the record\<close>
  "dataRow4a D titlename courtDate cellsText =
     (let claimNumber = orElse (nth_opt cellsText (Some 1)) [] in
      case parties4a cellsText of
        Inl e \<Rightarrow> Inl e
      | Inr (claimant, defendant) \<Rightarrow>
          (let courtName = extractCourtLocation titlename;
               rowData = \<lparr>CourtName = orElse courtName [],
                          CourtDate = formatCourtDate4 D courtDate,
                          ClaimNumber = claimNumber,
                          Claimant = claimant,
                          Defendant = defendant,
                          Duration = notProvided,
                          HearingType = notProvided,
                          HearingChannel = notProvided,
                          Title = titlename\<rparr>
           in Inr (courtName, rowData)))"

definition step4a ::
  "dateParser \<Rightarrow> string \<Rightarrow> string \<Rightarrow> headers4a loopState \<Rightarrow> row \<Rightarrow> error + headers4a loopState" where
  "step4a D titlename courtDate st cells =
     (let cellsText = cellsText4a cells in
      if list_ex (\<lambda>text. rxTest rxClaimNumberClaimant (normalizeText text)) cellsText then
        Inr (st\<lparr>headersIndex := fst (foldl mapHeader4a (headersIndex st, Num 0) cells)\<rparr>)
      else if length cellsText > 1 \<and> hasKeys4a (headersIndex st) then
        if list_all (\<lambda>text. text = []) cellsText then Inr st
        else
          (case dataRow4a D titlename courtDate cellsText of
             Inl e \<Rightarrow> Inl e
           | Inr (courtName, rowData) \<Rightarrow>
               Inr (st\<lparr>courtNameVar := courtName, dataOut := dataOut st @ [rowData]\<rparr>))
      else Inr st)"

fun rowsEach :: "('s \<Rightarrow> row \<Rightarrow> error + 's) \<Rightarrow> 's \<Rightarrow> row list \<Rightarrow> error + 's" where
  \<comment> \<open>\<open>rows.each\<close> with a body that may raise: the first error ends the loop\<close>
  "rowsEach f st [] = Inr st"
| "rowsEach f st (r # rs) = (case f st r of Inl e \<Rightarrow> Inl e | Inr st' \<Rightarrow> rowsEach f st' rs)"

definition extractDataTemplate4a ::
  "dateParser \<Rightarrow> string \<Rightarrow> table \<Rightarrow> string \<Rightarrow> string \<Rightarrow> error + caseRecord list" where
  "extractDataTemplate4a D title tbl courtName courtDate =
     map_sum id dataOut (rowsEach (step4a D (trim title) courtDate)
       \<lparr>headersIndex = noHeaders4a, courtNameVar = Some courtName, dataOut = []\<rparr> (tableRows tbl))"


section \<open>\<open>extractDataTemplate5\<close>\<close>

record headers5 =
  h5startTime :: "number option"
  h5duration :: "number option"
  h5caseDetails :: "number option"
  h5hearingType :: "number option"
  h5hearingChannel :: "number option"

definition noHeaders5 :: headers5 where
  "noHeaders5 = \<lparr>h5startTime = None, h5duration = None, h5caseDetails = None,
     h5hearingType = None, h5hearingChannel = None\<rparr>"

definition hasKeys5 :: "headers5 \<Rightarrow> bool" where
  "hasKeys5 h = (h5startTime h \<noteq> None \<or> h5duration h \<noteq> None \<or> h5caseDetails h \<noteq> None
     \<or> h5hearingType h \<noteq> None \<or> h5hearingChannel h \<noteq> None)"

definition dataCellsOf :: "row \<Rightarrow> row" where
  \<comment> \<open>the cells without the class \<open>EmptyCellLayoutStyle\<close>\<close>
  "dataCellsOf cells = filter (\<lambda>c. \<not> cellEmptyStyle c) cells"

definition rxPartySuppressed :: rx where
  \<comment> \<open>\<open>/party\s*name|parties\s*suppressed/i\<close>\<close>
  "rxPartySuppressed =
     Alt (seqs [litI ''party'', Star ws, litI ''name''])
         (seqs [litI ''parties'', Star ws, litI ''suppressed''])"

definition rxStartTime :: rx where
  \<comment> \<open>\<open>/start\s*time/i\<close>\<close>
  "rxStartTime = seqs [litI ''start'', Star ws, litI ''time'']"

definition rxDuration :: rx where
  \<comment> \<open>\<open>/duration/i\<close>\<close>
  "rxDuration = litI ''duration''"

definition rxCaseDetailOpt :: rx where
  \<comment> \<open>\<open>/case\s*detail(s)?/i\<close>\<close>
  "rxCaseDetailOpt = seqs [litI ''case'', Star ws, litI ''detail'', Opt (Grp (litI ''s''))]"

definition rxHearingType :: rx where
  \<comment> \<open>\<open>/hearing\s*type/i\<close>\<close>
  "rxHearingType = seqs [litI ''hearing'', Star ws, litI ''type'']"

definition rxHearingChannel :: rx where
  \<comment> \<open>\<open>/hearing\s*channel/i\<close>\<close>
  "rxHearingChannel = seqs [litI ''hearing'', Star ws, litI ''channel'']"

definition rxPossessions :: rx where
  \<comment> \<open>\<open>/possessions?/i\<close>\<close>
  "rxPossessions = seqs [litI ''possession'', Opt (LitI CHR ''s'')]"

definition rxLeadingToken :: rx where
  \<comment> \<open>\<open>/^[A-Z0-9]+ /\<close>\<close>
  "rxLeadingToken = seqs [Bol, plus (Cls (\<lambda>c. isUpper c \<or> isDigit c)), Lit CHR '' '']"

definition rxV :: rx where
  \<comment> \<open>\<open>/\s+(v|vs)\s+/i\<close>\<close>
  "rxV = seqs [plus ws, Grp (alts [litI ''v'', litI ''vs'']), plus ws]"

definition rxDashV :: rx where
  \<comment> \<open>\<open>/\s+(-v-|-vs-)\s+/i\<close>\<close>
  "rxDashV = seqs [plus ws, Grp (alts [litI ''-v-'', litI ''-vs-'']), plus ws]"

definition mapHeader5 :: "headers5 \<times> number \<Rightarrow> cell \<Rightarrow> headers5 \<times> number" where
  "mapHeader5 hl c =
     (let h = fst hl; logicalIndex = snd hl;
          headerText = normalizeText (cellText c);
          colspan = colspanOf c;
          h' = (if rxTest rxStartTime headerText then h\<lparr>h5startTime := Some logicalIndex\<rparr>
                else if rxTest rxDuration headerText then h\<lparr>h5duration := Some logicalIndex\<rparr>
                else if rxTest rxCaseDetailOpt headerText then h\<lparr>h5caseDetails := Some logicalIndex\<rparr>
                else if rxTest rxHearingType headerText then h\<lparr>h5hearingType := Some logicalIndex\<rparr>
                else if rxTest rxHearingChannel headerText then h\<lparr>h5hearingChannel := Some logicalIndex\<rparr>
                else h)
      in (h', numAdd logicalIndex colspan))"

definition partiesOf :: "string list \<Rightarrow> error + (string \<times> string)" where
  \<comment> \<open>what both splitters do with the array \<open>parts\<close> of a split: with two elements or
     more, \<open>parts[0]\<close> and \<open>parts[2]\<close>, trimmed and without pipes; otherwise \<open>parts[0]\<close> and
     the placeholder\<close>
  "partiesOf parts =
     (if length parts \<ge> 2 then
        (case trimOf (nth_opt parts (Some 0)) of
           Inl e \<Rightarrow> Inl e
         | Inr claimant \<Rightarrow>
             (case trimOf (nth_opt parts (Some 2)) of
                Inl e \<Rightarrow> Inl e
              | Inr defendant \<Rightarrow> Inr (stripPipes claimant, stripPipes defendant)))
      else
        (case trimOf (nth_opt parts (Some 0)) of
           Inl e \<Rightarrow> Inl e
         | Inr claimant \<Rightarrow> Inr (stripPipes claimant, notProvided)))"

definition splitParties5 :: "string \<Rightarrow> error + (string \<times> string)" where
  \<comment> \<open>lines 504 to 527: claimant and defendant out of the case details\<close>
  "splitParties5 caseDetails =
     (if rxTest rxV caseDetails \<or> rxTest rxDashV caseDetails then
        (let parts = rxSplit rxV caseDetails;
             parts = (if rxTest rxDashV caseDetails then rxSplit rxDashV caseDetails else parts)
         in partiesOf parts)
      else Inr (notProvided, notProvided))"

definition possessionAt :: "string list \<Rightarrow> int \<Rightarrow> bool" where
  \<comment> \<open>\<open>/possessions?/i.test(cellsText[i])\<close>\<close>
  "possessionAt cellsText i = rxTest rxPossessions (jsStr (nth_opt cellsText (Some i)))"

definition pickHearingType :: "string list \<Rightarrow> string option option" where
  \<comment> \<open>positions 5, 3 and 6 are probed in this order; the outer \<open>None\<close> is the \<open>return\<close>
     that drops the row\<close>
  "pickHearingType cellsText =
     (if possessionAt cellsText 5 then Some (nth_opt cellsText (Some 5))
      else if possessionAt cellsText 3 then Some (nth_opt cellsText (Some 3))
      else if possessionAt cellsText 6 then Some (nth_opt cellsText (Some 6))
      else None)"

definition fieldsFor5 :: "string list \<Rightarrow> string option \<Rightarrow> string option \<times> string option \<times> string option" where
  \<comment> \<open>\<open>duration\<close>, \<open>caseDetails\<close> and \<open>hearingChannel\<close>: at positions 3, 4 and 6, unless the
     hearing type equals the cell at position 3 or, failing that, the cell at position 6\<close>
  "fieldsFor5 cellsText hearingType =
     (let at = (\<lambda>i. nth_opt cellsText (Some i)) in
      if hearingType = at 3 then (at 1, at 2, at 4)
      else if hearingType = at 6 then (at 4, at 5, at 7)
      else (at 3, at 4, at 6))"

definition dataRow5 ::
  "dateParser \<Rightarrow> string \<Rightarrow> string \<Rightarrow> string list \<Rightarrow> error + (string option \<times> caseRecord) option" where
  \<comment> \<open>a data row: \<open>None\<close> when the row is dropped, otherwise the new value of
     \<open>courtName\<close> and the record\<close>
  "dataRow5 D titlename courtDate cellsText =
     (case pickHearingType cellsText of
        None \<Rightarrow> Inr None
      | Some hearingType \<Rightarrow>
          (let fields = fieldsFor5 cellsText hearingType;
               duration = fst fields;
               caseDetails = fst (snd fields);
               hearingChannel = snd (snd fields)
           in case caseDetails of
                None \<Rightarrow> Inl TypeError
              | Some cd \<Rightarrow>
                  (let claimNumber = nth_opt (strSplit '' '' cd) (Some 0) in
                   if claimNumber = Some ''PCOL'' then Inr None
                   else
                     (case splitParties5 (rxReplaceFirst rxLeadingToken (\<lambda>caps. []) cd) of
                        Inl e \<Rightarrow> Inl e
                      | Inr (claimant, defendant) \<Rightarrow>
                          (let courtName = extractCourtLocation titlename;
                               rowData = \<lparr>CourtName = orElse courtName [],
                                          CourtDate = formatCourtDate5 D courtDate,
                                          ClaimNumber = orElse claimNumber notProvided,
                                          Claimant = orElse (Some claimant) notProvided,
                                          Defendant = orElse (Some defendant) notProvided,
                                          Duration = orElse duration notProvided,
                                          HearingType = orElse hearingType notProvided,
                                          HearingChannel = orElse hearingChannel notProvided,
                                          Title = titlename\<rparr>
                           in Inr (Some (courtName, rowData)))))))"

definition step5 ::
  "dateParser \<Rightarrow> string \<Rightarrow> string \<Rightarrow> headers5 loopState \<Rightarrow> row \<Rightarrow> error + headers5 loopState" where
  "step5 D titlename courtDate st cells =
     (let dataCells = dataCellsOf cells;
          cellsText = cellsTextOf dataCells in
      if list_ex (\<lambda>text. rxTest rxPartySuppressed text) cellsText then Inr st
      else if list_ex (\<lambda>text. rxTest rxStartTime (normalizeText text)) cellsText then
        Inr (st\<lparr>headersIndex := fst (foldl mapHeader5 (headersIndex st, Num 0) dataCells)\<rparr>)
      else if length cellsText > 1 \<and> hasKeys5 (headersIndex st) then
        if list_all (\<lambda>text. text = []) cellsText then Inr st
        else
          (case dataRow5 D titlename courtDate cellsText of
             Inl e \<Rightarrow> Inl e
           | Inr None \<Rightarrow> Inr st
           | Inr (Some (courtName, rowData)) \<Rightarrow>
               Inr (st\<lparr>courtNameVar := courtName, dataOut := dataOut st @ [rowData]\<rparr>))
      else Inr st)"

definition extractDataTemplate5 ::
  "dateParser \<Rightarrow> string \<Rightarrow> table \<Rightarrow> string \<Rightarrow> string \<Rightarrow> error + caseRecord list" where
  "extractDataTemplate5 D title tbl courtName courtDate =
     map_sum id dataOut (rowsEach (step5 D (trim title) courtDate)
       \<lparr>headersIndex = noHeaders5, courtNameVar = Some courtName, dataOut = []\<rparr> (tableRows tbl))"

section \<open>\<open>extractDataTemplate7\<close>\<close>

record headers7 =
  h7time :: "number option"
  h7caseRef :: "number option"
  h7caseName :: "number option"
  h7caseType :: "number option"
  h7duration :: "number option"
  h7hearingType :: "number option"
  h7hearingPlatform :: "number option"

definition noHeaders7 :: headers7 where
  "noHeaders7 = \<lparr>h7time = None, h7caseRef = None, h7caseName = None, h7caseType = None,
     h7duration = None, h7hearingType = None, h7hearingPlatform = None\<rparr>"

definition hasKeys7 :: "headers7 \<Rightarrow> bool" where
  "hasKeys7 h = (h7time h \<noteq> None \<or> h7caseRef h \<noteq> None \<or> h7caseName h \<noteq> None
     \<or> h7caseType h \<noteq> None \<or> h7duration h \<noteq> None \<or> h7hearingType h \<noteq> None
     \<or> h7hearingPlatform h \<noteq> None)"

definition rxExact :: "rx list \<Rightarrow> rx" where
  \<comment> \<open>\<open>/^...$/\<close>\<close>
  "rxExact rs = seqs (Bol # rs @ [Eol])"

definition rxCaseRefExact :: rx where
  \<comment> \<open>\<open>/^case\s*ref$/i\<close>\<close>
  "rxCaseRefExact = rxExact [litI ''case'', Star ws, litI ''ref'']"

definition rxCaseNameExact :: rx where
  \<comment> \<open>\<open>/^case\s*name$/i\<close>\<close>
  "rxCaseNameExact = rxExact [litI ''case'', Star ws, litI ''name'']"

definition rxCaseTypeExact :: rx where
  \<comment> \<open>\<open>/^case\s*type$/i\<close>\<close>
  "rxCaseTypeExact = rxExact [litI ''case'', Star ws, litI ''type'']"

definition rxDurationExact :: rx where
  \<comment> \<open>\<open>/^duration$/i\<close>\<close>
  "rxDurationExact = rxExact [litI ''duration'']"

definition rxHearingTypeExact :: rx where
  \<comment> \<open>\<open>/^hearing\s*type$/i\<close>\<close>
  "rxHearingTypeExact = rxExact [litI ''hearing'', Star ws, litI ''type'']"

definition rxHearingPlatformExact :: rx where
  \<comment> \<open>\<open>/^hearing\s*platform$/i\<close>\<close>
  "rxHearingPlatformExact = rxExact [litI ''hearing'', Star ws, litI ''platform'']"

definition rxPosse :: rx where
  \<comment> \<open>\<open>/posse|possession/i\<close>\<close>
  "rxPosse = Alt (litI ''posse'') (litI ''possession'')"

definition rxLooseV :: rx where
  \<comment> \<open>\<open>/\s*v(?:s)?\s*/i\<close>\<close>
  "rxLooseV = seqs [Star ws, LitI CHR ''v'', Opt (LitI CHR ''s''), Star ws]"

definition mapHeader7 :: "headers7 \<times> number \<Rightarrow> cell \<Rightarrow> headers7 \<times> number" where
  "mapHeader7 hl c =
     (let h = fst hl; logicalIndex = snd hl;
          headerText = normalizeText (cellText c);
          colspan = colspanOf c;
          h' = (if rxTest rxTimeExact headerText then h\<lparr>h7time := Some logicalIndex\<rparr>
                else if rxTest rxCaseRefExact headerText then h\<lparr>h7caseRef := Some logicalIndex\<rparr>
                else if rxTest rxCaseNameExact headerText then h\<lparr>h7caseName := Some logicalIndex\<rparr>
                else if rxTest rxCaseTypeExact headerText then h\<lparr>h7caseType := Some logicalIndex\<rparr>
                else if rxTest rxDurationExact headerText then h\<lparr>h7duration := Some logicalIndex\<rparr>
                else if rxTest rxHearingTypeExact headerText then h\<lparr>h7hearingType := Some logicalIndex\<rparr>
                else if rxTest rxHearingPlatformExact headerText then
                  h\<lparr>h7hearingPlatform := Some logicalIndex\<rparr>
                else h)
      in (h', numAdd logicalIndex colspan))"

definition splitParties7 :: "string option \<Rightarrow> error + (string \<times> string)" where
  \<comment> \<open>lines 717 to 735: claimant and defendant out of the case name, which is
     \<open>cellsText[3]\<close> and may be \<open>undefined\<close>\<close>
  "splitParties7 caseName =
     (if rxTest rxLooseV (jsStr caseName) then
        (case caseName of
           None \<Rightarrow> Inl TypeError
         | Some cn \<Rightarrow> partiesOf (rxSplit rxV cn))
      else Inr (notProvided, notProvided))"

definition dataRow7 ::
  "dateParser \<Rightarrow> string \<Rightarrow> string \<Rightarrow> headers7 \<Rightarrow> string list
     \<Rightarrow> error + (string option \<times> caseRecord) option" where
  "dataRow7 D titlename courtDate h cellsText =
     (let caseRef = orElse (nth_opt cellsText (arrayIndex (h7caseRef h))) [];
          caseName = nth_opt cellsText (Some 3);
          caseType = orElse (nth_opt cellsText (arrayIndex (h7caseType h))) [];
          duration = orElse (nth_opt cellsText (arrayIndex (h7hearingType h))) [];
          hearingType = nth_opt cellsText (Some 5);
          hearingPlatform = nth_opt cellsText (Some 6)
      in if \<not> rxTest rxPosse caseType then Inr None
         else
           (case splitParties7 caseName of
              Inl e \<Rightarrow> Inl e
            | Inr (claimant, defendant) \<Rightarrow>
                (let courtName = extractCourtLocation titlename;
                     rowData = \<lparr>CourtName = orElse courtName [],
                                CourtDate = formatCourtDate4 D courtDate,
                                ClaimNumber = caseRef,
                                Claimant = orElse (Some claimant) notProvided,
                                Defendant = orElse (Some defendant) notProvided,
                                Duration = orElse (Some duration) notProvided,
                                HearingType = orElse hearingType notProvided,
                                HearingChannel = orElse hearingPlatform notProvided,
                                Title = titlename\<rparr>
                 in Inr (Some (courtName, rowData)))))"

definition step7 ::
  "dateParser \<Rightarrow> string \<Rightarrow> string \<Rightarrow> headers7 loopState \<Rightarrow> row \<Rightarrow> error + headers7 loopState" where
  "step7 D titlename courtDate st cells =
     (let dataCells = dataCellsOf cells;
          cellsText = cellsTextOf dataCells in
      if list_ex (\<lambda>text. rxTest rxCaseRefExact (normalizeText text)) cellsText then
        Inr (st\<lparr>headersIndex := fst (foldl mapHeader7 (headersIndex st, Num 0) dataCells)\<rparr>)
      else if length cellsText > 1 \<and> hasKeys7 (headersIndex st) then
        if list_all (\<lambda>text. text = []) cellsText then Inr st
        else
          (case dataRow7 D titlename courtDate (headersIndex st) cellsText of
             Inl e \<Rightarrow> Inl e
           | Inr None \<Rightarrow> Inr st
           | Inr (Some (courtName, rowData)) \<Rightarrow>
               Inr (st\<lparr>courtNameVar := courtName, dataOut := dataOut st @ [rowData]\<rparr>))
      else Inr st)"

definition extractDataTemplate7 ::
  "dateParser \<Rightarrow> string \<Rightarrow> table \<Rightarrow> string \<Rightarrow> string \<Rightarrow> error + caseRecord list" where
  "extractDataTemplate7 D title tbl courtName courtDate =
     map_sum id dataOut (rowsEach (step7 D (trim title) courtDate)
       \<lparr>headersIndex = noHeaders7, courtNameVar = Some courtName, dataOut = []\<rparr> (tableRows tbl))"


section \<open>\<open>identifyTemplate\<close>\<close>

datatype template = template4 | template4a | template5 | template7

definition rxCaseRef :: rx where
  \<comment> \<open>\<open>/case\s*ref/i\<close>\<close>
  "rxCaseRef = seqs [litI ''case'', Star ws, litI ''ref'']"

definition rxCaseName :: rx where
  \<comment> \<open>\<open>/case\s*name/i\<close>\<close>
  "rxCaseName = seqs [litI ''case'', Star ws, litI ''name'']"

definition rxCaseDetails :: rx where
  \<comment> \<open>\<open>/case\s*details/i\<close>\<close>
  "rxCaseDetails = seqs [litI ''case'', Star ws, litI ''details'']"

definition rxCaseDetail :: rx where
  \<comment> \<open>\<open>/case\s*detail/i\<close>\<close>
  "rxCaseDetail = seqs [litI ''case'', Star ws, litI ''detail'']"

definition rxGenericKeywords :: rx where
  \<comment> \<open>\<open>/(hearing room|deputy district judge|sitting at|court room|magistrates court)/i\<close>\<close>
  "rxGenericKeywords =
     Grp (alts [litI ''hearing room'', litI ''deputy district judge'', litI ''sitting at'',
                litI ''court room'', litI ''magistrates court''])"

definition rxNottingham :: rx where
  "rxNottingham = litI ''Nottingham''"

definition rxWigham :: rx where
  "rxWigham = litI ''Wigham''"

definition rxCourtRoom7 :: rx where
  \<comment> \<open>\<open>/Court\s*Room\s*7/i\<close>\<close>
  "rxCourtRoom7 = seqs [litI ''Court'', Star ws, litI ''Room'', Star ws, litI ''7'']"

definition bodyTextContent :: "document \<Rightarrow> string" where
  \<comment> \<open>\<open>$('body').text().toLowerCase().replace(/\s+/g, ' ')\<close>\<close>
  "bodyTextContent doc = collapseWs (toLowerCase (docBody doc))"

definition identifyTemplate :: "document \<Rightarrow> template option" where
  \<comment> \<open>\<open>None\<close> is \<open>null\<close>\<close>
  "identifyTemplate doc =
     (let textContent = bodyTextContent doc in
      if rxTest rxCaseRef textContent \<and> rxTest rxCaseName textContent then Some template7
      else if rxTest rxStartTime textContent \<and> rxTest rxDuration textContent
              \<and> (rxTest rxCaseDetails textContent \<or> rxTest rxCaseDetail textContent)
              \<and> rxTest rxHearingType textContent \<and> rxTest rxHearingChannel textContent
      then Some template5
      else
        (let isCourtServePage = strIncludes (normalizeText (docTitle doc)) ''courtserve'';
             hasTimeHeader = list_ex (\<lambda>t. normalizeText t = ''time'') (docTableCells doc);
             hasClaimNumberClaimantHeader =
               list_ex (\<lambda>t. strIncludes (normalizeText t) ''claim number''
                             \<and> strIncludes (toLowerCase t) ''claimant'') (docTableCells doc);
             hasDefendantHeader =
               list_ex (\<lambda>t. strIncludes (normalizeText t) ''defendant'') (docTableCells doc);
             hasGenericKeywords = rxTest rxGenericKeywords (docBody doc)
         in if rxTest rxClaimNumber textContent \<and> rxTest rxNottingham textContent
               \<and> rxTest rxWigham textContent \<and> rxTest rxCourtRoom7 textContent
            then Some template4
            else if (isCourtServePage \<and> hasTimeHeader \<and> hasClaimNumberClaimantHeader
                     \<and> hasDefendantHeader \<and> hasGenericKeywords)
                    \<or> rxTest rxClaimNumber textContent
            then Some template4a
            else None))"

section \<open>\<open>scrapeDataFromHtml\<close>\<close>

subsection \<open>The scan of the paragraphs for court name and court date\<close>

definition weekdays :: rx where
  \<comment> \<open>\<open>(Monday|Tuesday|Wednesday|Thursday|Friday|Saturday|Sunday)\<close>\<close>
  "weekdays = Grp (alts [litI ''Monday'', litI ''Tuesday'', litI ''Wednesday'', litI ''Thursday'',
                         litI ''Friday'', litI ''Saturday'', litI ''Sunday''])"

definition ordinalSuffix :: rx where
  \<comment> \<open>\<open>st|nd|rd|th\<close>\<close>
  "ordinalSuffix = alts [litI ''st'', litI ''nd'', litI ''rd'', litI ''th'']"

definition digits12 :: rx where
  \<comment> \<open>\<open>\d{1,2}\<close>\<close>
  "digits12 = Seq digit (Opt digit)"

definition digits4 :: rx where
  \<comment> \<open>\<open>\d{4}\<close>\<close>
  "digits4 = seqs [digit, digit, digit, digit]"

definition rxCourtAt :: rx where
  "rxCourtAt = litI ''court at''"

definition rxSittingAt :: rx where
  "rxSittingAt = litI ''sitting at''"

definition rxCourtOrSittingAt :: rx where
  \<comment> \<open>\<open>/court at|sitting at/i\<close>\<close>
  "rxCourtOrSittingAt = Alt (litI ''court at'') (litI ''sitting at'')"

definition datePattern :: rx where
  \<comment> \<open>\<open>/^(Monday|...|Sunday),\s+\d{1,2}(?:st|nd|rd|th)?\s+\w+\s+\d{4}$/i\<close>\<close>
  "datePattern =
     seqs [Bol, weekdays, Lit CHR '','', plus ws, digits12, Opt ordinalSuffix, plus ws,
           plus word, plus ws, digits4, Eol]"

definition rxDydd :: rx where
  \<comment> \<open>\<open>/Dydd\s+\w+,\s*\d{1,2}/i\<close>\<close>
  "rxDydd = seqs [litI ''Dydd'', plus ws, plus word, Lit CHR '','', Star ws, digits12]"

definition noCommaPattern :: rx where
  \<comment> \<open>\<open>/^(Monday|...|Sunday)\s+\d{1,2}(st|nd|rd|th)?\s+\w+\s+\d{4}$/i\<close>\<close>
  "noCommaPattern =
     seqs [Bol, weekdays, plus ws, digits12, Opt (Grp ordinalSuffix), plus ws,
           plus word, plus ws, digits4, Eol]"

definition pureDatePattern :: rx where
  \<comment> \<open>\<open>/^\d{1,2}(st|nd|rd|th)?\s+\w+\s+\d{4}$/i\<close>\<close>
  "pureDatePattern =
     seqs [Bol, digits12, Opt (Grp ordinalSuffix), plus ws, plus word, plus ws, digits4, Eol]"

definition rxDayMonthYear :: rx where
  \<comment> \<open>\<open>/^(\d{1,2})\s+(\w+)\s+(\d{4})$/i\<close>\<close>
  "rxDayMonthYear =
     seqs [Bol, Grp digits12, plus ws, Grp (plus word), plus ws, Grp digits4, Eol]"

definition monthDayYear :: "string list \<Rightarrow> string" where
  \<comment> \<open>the replacement \<open>(match, d, mon, y) => `${mon} ${d}, ${y}`\<close>\<close>
  "monthDayYear caps =
     concat (take 1 (drop 1 caps)) @ '' '' @ concat (take 1 caps) @ '', '' @ concat (take 1 (drop 2 caps))"

definition scanParagraph :: "dateParser \<Rightarrow> string \<times> string \<Rightarrow> string \<Rightarrow> string \<times> string" where
  \<comment> \<open>the body of \<open>$('p').each\<close>; the pair is \<open>courtName\<close> and \<open>courtDate\<close>\<close>
  "scanParagraph D nd p =
     (let text = trim p;
          courtName = fst nd; courtDate = snd nd;
          courtName =
            (if rxTest rxCourtAt text \<or> rxTest rxSittingAt text then
               (let parts = rxSplit rxCourtOrSittingAt text in
                if length parts > 1 then trim (parts ! 1) else courtName)
             else courtName);
          courtDate = (if rxTest datePattern text then text else courtDate);
          courtDate =
            (if courtDate = [] \<and> rxTest rxDydd text \<and> rxTest weekdays text then
               (let parts = map trim (strSplit '','' text) in
                if length parts > 3 then
                  (let candidate = stripOrdinal (parts ! 3) in
                   if D candidate \<noteq> None then candidate else courtDate)
                else courtDate)
             else courtDate);
          courtDate =
            (if courtDate = [] then
               (if rxTest noCommaPattern text then
                  (let candidate = stripOrdinal text in
                   if D candidate \<noteq> None then candidate else courtDate)
                else courtDate)
             else courtDate);
          courtDate =
            (if courtDate = [] then
               (if rxTest pureDatePattern text then
                  (let candidate = rxReplaceFirst rxDayMonthYear monthDayYear (stripOrdinal text) in
                   if D candidate \<noteq> None then candidate else courtDate)
                else courtDate)
             else courtDate)
      in (courtName, courtDate))"

fun firstOccurrences :: "string list \<Rightarrow> string list \<Rightarrow> string list" where
  \<comment> \<open>\<open>filter((item, pos, self) => self.indexOf(item) === pos)\<close>; the first argument
     holds the items already met\<close>
  "firstOccurrences seen [] = []"
| "firstOccurrences seen (x # xs) =
     (if x \<in> set seen then firstOccurrences seen xs else x # firstOccurrences (x # seen) xs)"

definition cleanCourtName :: "string \<Rightarrow> string" where
  "cleanCourtName courtName = strJoin '' '' (firstOccurrences [] (strSplit '' '' courtName))"

subsection \<open>The tables of a template\<close>

definition isAlpha :: "char \<Rightarrow> bool" where
  "isAlpha c = (isUpper c \<or> isLower c)"

definition isAlnum :: "char \<Rightarrow> bool" where
  "isAlnum c = (isUpper c \<or> isLower c \<or> isDigit c)"

definition rxClaimantAny :: rx where
  \<comment> \<open>\<open>/(claimant|applicant|petitioner)/i\<close>\<close>
  "rxClaimantAny = Grp (alts [litI ''claimant'', litI ''applicant'', litI ''petitioner''])"

definition rxHeaderSequence :: rx where
  \<comment> \<open>\<open>/time\s+claim\s*number\s+claimant\s+defendant/i\<close>\<close>
  "rxHeaderSequence =
     seqs [litI ''time'', plus ws, litI ''claim'', Star ws, litI ''number'', plus ws,
           litI ''claimant'', plus ws, litI ''defendant'']"

definition rxClaimPattern :: rx where
  \<comment> \<open>\<open>/\b[a-z0-9]{4,}\b\s+[a-z]+\s+[a-z]+/i\<close>\<close>
  "rxClaimPattern =
     seqs [WordB, Cls isAlnum, Cls isAlnum, Cls isAlnum, Cls isAlnum, Star (Cls isAlnum), WordB,
           plus ws, plus (Cls isAlpha), plus ws, plus (Cls isAlpha)]"

definition rxStartTimeW :: rx where
  \<comment> \<open>\<open>/(amser\s*cychwyn\s*,\s*)?start\s*time/i\<close>\<close>
  "rxStartTimeW =
     seqs [Opt (Grp (seqs [litI ''amser'', Star ws, litI ''cychwyn'', Star ws, Lit CHR '','', Star ws])),
           litI ''start'', Star ws, litI ''time'']"

definition rxDurationW :: rx where
  \<comment> \<open>\<open>/(hyd,\s*)?duration/i\<close>\<close>
  "rxDurationW = seqs [Opt (Grp (seqs [litI ''hyd,'', Star ws])), litI ''duration'']"

definition rxCaseDetailW :: rx where
  \<comment> \<open>\<open>/(manylion\s*yr\s*achos,\s*)?case\s*detail(s)?/i\<close>\<close>
  "rxCaseDetailW =
     seqs [Opt (Grp (seqs [litI ''manylion'', Star ws, litI ''yr'', Star ws, litI ''achos,'', Star ws])),
           litI ''case'', Star ws, litI ''detail'', Opt (Grp (litI ''s''))]"

definition rxHearingTypeW :: rx where
  \<comment> \<open>\<open>/(math\s*o\s*wrandawiad,\s*)?hearing\s*type/i\<close>\<close>
  "rxHearingTypeW =
     seqs [Opt (Grp (seqs [litI ''math'', Star ws, litI ''o'', Star ws, litI ''wrandawiad,'', Star ws])),
           litI ''hearing'', Star ws, litI ''type'']"

definition rxHearingChannelW :: rx where
  \<comment> \<open>\<open>/(sianel\s*clyw,\s*)?hearing\s*channel/i\<close>\<close>
  "rxHearingChannelW =
     seqs [Opt (Grp (seqs [litI ''sianel'', Star ws, litI ''clyw,'', Star ws])),
           litI ''hearing'', Star ws, litI ''channel'']"

definition tableFilter :: "template \<Rightarrow> table \<Rightarrow> bool" where
  \<comment> \<open>the predicate of \<open>$('table').filter\<close> for each template\<close>
  "tableFilter t tbl =
     (case t of
        template4 \<Rightarrow>
          (let tableText = toLowerCase (tableText tbl) in
           rxTest rxClaimNumber tableText \<and> rxTest rxClaimantAny tableText)
      | template4a \<Rightarrow>
          (let tableText = normalizeText (tableText tbl);
               hasClaimPattern = rxTest rxClaimPattern tableText
           in rxTest rxHeaderSequence tableText \<or> hasClaimPattern)
      | template7 \<Rightarrow>
          (let tableText = toLowerCase (tableText tbl) in
           rxTest rxCaseRef tableText \<and> rxTest rxCaseName tableText)
      | template5 \<Rightarrow>
          (let tableText = collapseWs (toLowerCase (tableText tbl)) in
           rxTest rxStartTimeW tableText \<and> rxTest rxDurationW tableText
           \<and> rxTest rxCaseDetailW tableText \<and> rxTest rxHearingTypeW tableText
           \<and> rxTest rxHearingChannelW tableText))"

definition locateTables :: "template \<Rightarrow> document \<Rightarrow> (nat \<times> table) list" where
  \<comment> \<open>the tables kept, each with its position in the document, which stands for the
     identity of the element\<close>
  "locateTables t doc =
     filter (\<lambda>(i, tbl). tableFilter t tbl) (zip [0 ..< length (docTables doc)] (docTables doc))"

subsection \<open>The loop over the tables, and the records kept\<close>

record scrapeState =
  processedTables :: "nat list"
  processedClaimNumbers :: "string list"
  data :: "caseRecord list"

definition keepRow :: "scrapeState \<Rightarrow> caseRecord \<Rightarrow> scrapeState" where
  \<comment> \<open>the body of \<open>extractedData.forEach\<close>\<close>
  "keepRow st row =
     (if ClaimNumber row \<notin> set (processedClaimNumbers st) then
        st\<lparr>processedClaimNumbers := ClaimNumber row # processedClaimNumbers st,
           data := data st @ [row]\<rparr>
      else st)"

definition extractData ::
  "dateParser \<Rightarrow> template \<Rightarrow> string \<Rightarrow> table \<Rightarrow> string \<Rightarrow> string \<Rightarrow> error + caseRecord list" where
  \<comment> \<open>the dispatch on the template\<close>
  "extractData D t title tbl courtName courtDate =
     (case t of
        template4 \<Rightarrow> Inr (extractDataTemplate4 D title tbl courtName courtDate)
      | template4a \<Rightarrow> extractDataTemplate4a D title tbl courtName courtDate
      | template7 \<Rightarrow> extractDataTemplate7 D title tbl courtName courtDate
      | template5 \<Rightarrow> extractDataTemplate5 D title tbl courtName courtDate)"

fun tablesEach ::
  "dateParser \<Rightarrow> template \<Rightarrow> string \<Rightarrow> string \<Rightarrow> string \<Rightarrow> scrapeState \<Rightarrow> (nat \<times> table) list
     \<Rightarrow> error + scrapeState" where
  \<comment> \<open>\<open>tables.each\<close>\<close>
  "tablesEach D t title courtName courtDate st [] = Inr st"
| "tablesEach D t title courtName courtDate st ((tableElem, tbl) # tables) =
     (if tableElem \<notin> set (processedTables st) then
        (case extractData D t title tbl courtName courtDate of
           Inl e \<Rightarrow> Inl e
         | Inr extractedData \<Rightarrow>
             tablesEach D t title courtName courtDate
               (foldl keepRow (st\<lparr>processedTables := tableElem # processedTables st\<rparr>) extractedData)
               tables)
      else tablesEach D t title courtName courtDate st tables)"

definition scrapeDataFromHtml :: "dateParser \<Rightarrow> document \<Rightarrow> error + caseRecord list" where
  \<comment> \<open>from the parsed document on; \<open>Inl\<close> is an exception that leaves the function\<close>
  "scrapeDataFromHtml D doc =
     (case identifyTemplate doc of
        None \<Rightarrow> Inr []
      | Some t \<Rightarrow>
          (let nd = foldl (scanParagraph D) ([], []) (docParagraphs doc);
               courtName = cleanCourtName (fst nd);
               courtDate = snd nd;
               tables = locateTables t doc
           in if length tables = 0 then Inr []
              else map_sum id data
                     (tablesEach D t (docTitle doc) courtName courtDate
                        \<lparr>processedTables = [], processedClaimNumbers = [], data = []\<rparr> tables)))"

section \<open>Notions used to state the properties\<close>

subsection \<open>What an expression can match\<close>

text \<open>
  The words an expression can match, read off its structure and forgetting the
  conditions on the context (\<open>^\<close>, \<open>$\<close>, \<open>\b\<close>).  Every match of the matcher is such a
  word.
\<close>

fun den :: "rx \<Rightarrow> string \<Rightarrow> bool" where
  "den (Lit c) u = (u = [c])"
| "den (LitI c) u = (\<exists>x. u = [x] \<and> asciiLower x = asciiLower c)"
| "den (Cls p) u = (\<exists>x. u = [x] \<and> p x)"
| "den Eps u = (u = [])"
| "den (Seq r1 r2) u = (\<exists>x y. u = x @ y \<and> den r1 x \<and> den r2 y)"
| "den (Alt r1 r2) u = (den r1 u \<or> den r2 u)"
| "den (Opt r) u = (u = [] \<or> den r u)"
| "den (Star r) u = (\<exists>us. u = concat us \<and> (\<forall>x\<in>set us. den r x))"
| "den (LazyStar r) u = (\<exists>us. u = concat us \<and> (\<forall>x\<in>set us. den r x))"
| "den (Grp r) u = den r u"
| "den Bol u = (u = [])"
| "den Eol u = (u = [])"
| "den WordB u = (u = [])"

definition reaches :: "rx \<Rightarrow> mstate \<Rightarrow> mstate \<Rightarrow> bool" where
  \<comment> \<open>the second state lies a word of the expression after the first\<close>
  "reaches r st st' =
     (\<exists>u. fst (snd st) = u @ fst (snd st') \<and> fst st' = rev u @ fst st \<and> den r u)"

fun capCount :: "rx \<Rightarrow> nat option" where
  \<comment> \<open>the number of captures every match of the expression closes, when that number
     does not depend on the match\<close>
  "capCount (Seq r1 r2) =
     (case (capCount r1, capCount r2) of (Some a, Some b) \<Rightarrow> Some (a + b) | _ \<Rightarrow> None)"
| "capCount (Alt r1 r2) =
     (case (capCount r1, capCount r2) of
        (Some a, Some b) \<Rightarrow> if a = b then Some a else None
      | _ \<Rightarrow> None)"
| "capCount (Opt r) = (if capCount r = Some 0 then Some 0 else None)"
| "capCount (Star r) = (if capCount r = Some 0 then Some 0 else None)"
| "capCount (LazyStar r) = (if capCount r = Some 0 then Some 0 else None)"
| "capCount (Grp r) = map_option Suc (capCount r)"
| "capCount r = Some 0"

subsection \<open>Tokens in a text\<close>

definition ciEq :: "string \<Rightarrow> string \<Rightarrow> bool" where
  \<comment> \<open>equal up to the case of ASCII letters\<close>
  "ciEq x w = (map asciiLower x = map asciiLower w)"

definition ciPrefix :: "string \<Rightarrow> string \<Rightarrow> bool" where
  \<comment> \<open>the text starts with the word, up to case\<close>
  "ciPrefix w s = (length w \<le> length s \<and> ciEq (take (length w) s) w)"

fun containsCI :: "string \<Rightarrow> string \<Rightarrow> bool" where
  \<comment> \<open>the word occurs in the text, up to case\<close>
  "containsCI w [] = (w = [])"
| "containsCI w (c # cs) = (ciPrefix w (c # cs) \<or> containsCI w cs)"

definition phraseAt :: "string \<Rightarrow> string \<Rightarrow> string \<Rightarrow> bool" where
  \<comment> \<open>the text starts with the first word, any white space, and the second word\<close>
  "phraseAt a b s = (ciPrefix a s \<and> ciPrefix b (dropWhile isSpace (drop (length a) s)))"

fun containsPhrase :: "string \<Rightarrow> string \<Rightarrow> string \<Rightarrow> bool" where
  \<comment> \<open>the two words occur in the text one after the other, up to case and with any
     amount of white space between them\<close>
  "containsPhrase a b [] = phraseAt a b []"
| "containsPhrase a b (c # cs) = (phraseAt a b (c # cs) \<or> containsPhrase a b cs)"

definition separatorAt :: "string list \<Rightarrow> string \<Rightarrow> bool" where
  \<comment> \<open>the text starts with white space, one of the tokens (up to case) and white space\<close>
  "separatorAt toks s =
     (s \<noteq> [] \<and> isSpace (hd s) \<and>
      list_ex (\<lambda>tok. ciPrefix tok (dropWhile isSpace s)
                     \<and> (let r = drop (length tok) (dropWhile isSpace s) in r \<noteq> [] \<and> isSpace (hd r)))
        toks)"

fun hasSeparator :: "string list \<Rightarrow> string \<Rightarrow> bool" where
  \<comment> \<open>one of the tokens occurs in the text surrounded by white space\<close>
  "hasSeparator toks [] = False"
| "hasSeparator toks (c # cs) = (separatorAt toks (c # cs) \<or> hasSeparator toks cs)"

fun firstCut :: "string \<Rightarrow> string \<Rightarrow> (string \<times> string) option" where
  \<comment> \<open>the text before and the text after the first occurrence of the separator\<close>
  "firstCut sep [] = (if sep = [] then Some ([], []) else None)"
| "firstCut sep (c # cs) =
     (if prefix sep (c # cs) then Some ([], drop (length sep) (c # cs))
      else map_option (\<lambda>(x, y). (c # x, y)) (firstCut sep cs))"

definition courtNameOfTitle :: "string \<Rightarrow> string" where
  \<comment> \<open>the court name that the title alone determines\<close>
  "courtNameOfTitle title =
     (case extractCourtLocation (trim title) of None \<Rightarrow> [] | Some location \<Rightarrow> location)"

definition rowsOfTables ::
  "dateParser \<Rightarrow> template \<Rightarrow> string \<Rightarrow> string \<Rightarrow> string \<Rightarrow> (nat \<times> table) list \<Rightarrow> caseRecord list" where
  "rowsOfTables D t title courtName courtDate tabs =
     concat (map (\<lambda>(i, tbl).
       (case extractData D t title tbl courtName courtDate of Inl e \<Rightarrow> [] | Inr rows \<Rightarrow> rows)) tabs)"

definition extractedRows :: "dateParser \<Rightarrow> template \<Rightarrow> document \<Rightarrow> caseRecord list" where
  \<comment> \<open>the rows the extractor produces for the tables of the document, in order, before
     any is discarded\<close>
  "extractedRows D t doc =
     (let nd = foldl (scanParagraph D) ([], []) (docParagraphs doc)
      in rowsOfTables D t (docTitle doc) (cleanCourtName (fst nd)) (snd nd) (locateTables t doc))"

fun keepFirst :: "string set \<Rightarrow> caseRecord list \<Rightarrow> caseRecord list" where
  \<comment> \<open>the records whose claim number is neither among the given ones nor carried by an
     earlier record\<close>
  "keepFirst seen [] = []"
| "keepFirst seen (x # xs) =
     (if ClaimNumber x \<in> seen then keepFirst seen xs
      else x # keepFirst (insert (ClaimNumber x) seen) xs)"


definition sameOut :: "'h loopState \<Rightarrow> 'h loopState \<Rightarrow> bool" where
  \<comment> \<open>two states of a row loop that differ at most in the variable \<open>courtName\<close>\<close>
  "sameOut s1 s2 = (headersIndex s1 = headersIndex s2 \<and> dataOut s1 = dataOut s2)"

definition fromTitle :: "string \<Rightarrow> caseRecord \<Rightarrow> bool" where
  \<comment> \<open>court name and title of the record are those the title text gives\<close>
  "fromTitle titlename r =
     (CourtName r = (case extractCourtLocation titlename of None \<Rightarrow> [] | Some location \<Rightarrow> location)
      \<and> Title r = titlename)"




definition cellAt :: "string list \<Rightarrow> nat \<Rightarrow> string" where
  \<comment> \<open>the text of the cell at a position of a row, empty when the row has no such cell\<close>
  "cellAt cellsText k = (if k < length cellsText then cellsText ! k else [])"

definition orNotProvided :: "string \<Rightarrow> string" where
  "orNotProvided s = (if s = [] then ''Not Provided'' else s)"

definition dataRowOf :: "headers4a loopState \<Rightarrow> row \<Rightarrow> bool" where
  \<comment> \<open>a row that the loop of \<open>extractDataTemplate4a\<close> takes for a data row: no cell
     matches the combined header, it has two cells or more, of which one is not empty, and
     a header row came before it\<close>
  "dataRowOf st cells =
     (\<not> list_ex (\<lambda>text. rxTest rxClaimNumberClaimant (normalizeText text)) (cellsText4a cells)
      \<and> 1 < length cells \<and> hasKeys4a (headersIndex st)
      \<and> list_ex (\<lambda>text. text \<noteq> []) (cellsText4a cells))"

section \<open>Sample inputs\<close>

definition sampleDates :: dateParser where
  \<comment> \<open>a date parser that knows three dates and rejects everything else\<close>
  "sampleDates s =
     (if s = ''18 October 2024'' then Some \<lparr>getDate = 18, getMonth = 9, getFullYear = 2024\<rparr>
      else if s = ''15 November 2024'' then Some \<lparr>getDate = 15, getMonth = 10, getFullYear = 2024\<rparr>
      else if s = ''Monday 11 November 2024''
      then Some \<lparr>getDate = 11, getMonth = 10, getFullYear = 2024\<rparr>
      else None)"

definition plainCell :: "string \<Rightarrow> cell" where
  \<comment> \<open>a cell holding one paragraph, without \<open>colspan\<close> and without class\<close>
  "plainCell t = \<lparr>cellText = t, cellParagraphs = [t], cellColspan = None, cellEmptyStyle = False\<rparr>"

definition dupTable :: table where
  \<comment> \<open>a table for \<open>extractDataTemplate4a\<close> in which the claim number A1 comes twice\<close>
  "dupTable =
     \<lparr>tableText = ''time claim number claimant defendant'',
      tableRows = [map plainCell [''Time'', ''Claim Number Claimant'', ''Defendant''],
                   map plainCell [''9'', ''A1'', ''X'', ''Y''],
                   map plainCell [''9'', ''A2'', ''P'', ''Q''],
                   map plainCell [''9'', ''A1'', ''R'', ''S'']]\<rparr>"

definition dupDoc :: document where
  "dupDoc =
     \<lparr>docTitle = ''T'', docBody = ''claim number'', docParagraphs = [], docTableCells = [],
      docTables = [dupTable]\<rparr>"

definition sampleRecord :: "string \<Rightarrow> string \<Rightarrow> string \<Rightarrow> caseRecord" where
  \<comment> \<open>a record of a document with the title \<open>T\<close> and no court date, without duration,
     hearing type and hearing channel\<close>
  "sampleRecord n c d =
     \<lparr>CourtName = [], CourtDate = [], ClaimNumber = n, Claimant = c, Defendant = d,
      Duration = ''Not Provided'', HearingType = ''Not Provided'',
      HearingChannel = ''Not Provided'', Title = ''T''\<rparr>"

definition leedsTitle :: string where
  "leedsTitle = ''CourtServe: Leeds County Court''"

definition oneRowTable4 :: table where
  \<comment> \<open>a header row and one data row for \<open>extractDataTemplate4\<close>\<close>
  "oneRowTable4 =
     \<lparr>tableText = ''claim number claimant'',
      tableRows = [map plainCell [''Claim Number'', ''Claimant'', ''Defendant''],
                   map plainCell [''PCOL'', ''X'', ''Y'']]\<rparr>"

definition oneRowTable4a :: table where
  "oneRowTable4a =
     \<lparr>tableText = ''time claim number claimant defendant'',
      tableRows = [map plainCell [''Time'', ''Claim Number Claimant'', ''Defendant''],
                   map plainCell [''9'', ''A1'', ''X'', ''Y'']]\<rparr>"

definition possessionTable5 :: table where
  \<comment> \<open>for \<open>extractDataTemplate5\<close>: a possession hearing, a trial, and a possession hearing
     whose case details start with PCOL\<close>
  "possessionTable5 =
     \<lparr>tableText = ''start time duration case details hearing type hearing channel'',
      tableRows = [map plainCell [''Start Time'', ''Duration'', ''Case Details'', ''Hearing Type'',
                                  ''Hearing Channel''],
                   map plainCell [''9'', ''1h'', ''A1 X v Y'', ''Possession'', ''Room''],
                   map plainCell [''9'', ''1h'', ''A2 P v Q'', ''Trial'', ''Room''],
                   map plainCell [''9'', ''1h'', ''PCOL R v S'', ''Possession'', ''Room'']]\<rparr>"

definition possessionDoc5 :: document where
  "possessionDoc5 =
     \<lparr>docTitle = ''T'',
      docBody = ''start time duration case details hearing type hearing channel'',
      docParagraphs = [], docTableCells = [], docTables = [possessionTable5]\<rparr>"

definition pcolTable7 :: table where
  \<comment> \<open>for \<open>extractDataTemplate7\<close>: a possession case whose reference is PCOL\<close>
  "pcolTable7 =
     \<lparr>tableText = ''case ref case name'',
      tableRows = [map plainCell [''Time'', ''Case Ref'', ''Case Type'', ''Case Name''],
                   map plainCell [''9'', ''PCOL'', ''Possession'', ''X v Y'']]\<rparr>"

definition pcolTable4a :: table where
  \<comment> \<open>for \<open>extractDataTemplate4a\<close>: a row whose claim number is PCOL\<close>
  "pcolTable4a =
     \<lparr>tableText = ''time claim number claimant defendant'',
      tableRows = [map plainCell [''Time'', ''Claim Number Claimant'', ''Defendant''],
                   map plainCell [''9'', ''PCOL'', ''X'', ''Y'']]\<rparr>"

definition emptyDoc :: document where
  \<comment> \<open>a document without any of the tokens\<close>
  "emptyDoc = \<lparr>docTitle = ''T'', docBody = ''hello'', docParagraphs = [], docTableCells = [],
                docTables = [\<lparr>tableText = ''hello'', tableRows = []\<rparr>]\<rparr>"

definition bareDoc :: document where
  \<comment> \<open>a document of the combined-header layout none of whose tables passes the filter\<close>
  "bareDoc = \<lparr>docTitle = ''T'', docBody = ''claim number'', docParagraphs = [], docTableCells = [],
               docTables = [\<lparr>tableText = ''x'', tableRows = []\<rparr>]\<rparr>"


definition hugeSpanCell :: cell where
  \<comment> \<open>a header cell with \<open>colspan="9007199254740992"\<close>, which is \<open>2 ^ 53\<close>\<close>
  "hugeSpanCell = \<lparr>cellText = ''Time'', cellParagraphs = [''Time''],
                    cellColspan = Some ''9007199254740992'', cellEmptyStyle = False\<rparr>"

definition wideCell :: cell where
  \<comment> \<open>the combined header cell with \<open>colspan="2"\<close>\<close>
  "wideCell = \<lparr>cellText = ''Claim  Number Claimant'', cellParagraphs = [''Claim Number Claimant''],
                cellColspan = Some ''2'', cellEmptyStyle = False\<rparr>"

definition table88 :: table where
  \<comment> \<open>the table of the end-to-end scenario: the second cell of the data row holds the
     paragraphs \<open>CL123\<close> and \<open>John Smith\<close>\<close>
  "table88 =
     \<lparr>tableText = ''time claim number claimant defendant'',
      tableRows = [map plainCell [''Time'', ''Claim Number Claimant'', ''Defendant''],
                   [plainCell ''09:00'',
                    \<lparr>cellText = ''CL123John Smith'', cellParagraphs = [''CL123'', ''John Smith''],
                      cellColspan = None, cellEmptyStyle = False\<rparr>,
                    plainCell ''Jane Doe'']]\<rparr>"

definition fourCells :: row where
  \<comment> \<open>a data row of four cells\<close>
  "fourCells = map plainCell [''9'', ''A1'', ''Ann'', ''Bob'']"

definition headerSeen4a :: "headers4a loopState" where
  \<comment> \<open>the state of the row loop after the header row of \<open>table88\<close>\<close>
  "headerSeen4a =
     \<lparr>headersIndex = \<lparr>h4a_claimNumber = Some (Num 1), h4a_claimant = Some (Num 2),
                       h4a_time = Some (Num 0), h4a_defendant = Some (Num 2)\<rparr>,
      courtNameVar = Some [], dataOut = []\<rparr>"

definition overlapDoc :: document where
  \<comment> \<open>a document whose body holds the tokens of three layouts at once\<close>
  "overlapDoc =
     \<lparr>docTitle = ''T'',
      docBody = ''CASE  REF Case Name start time duration case details hearing type hearing channel claim number'',
      docParagraphs = [], docTableCells = [], docTables = []\<rparr>"

definition mondayDoc4a :: document where
  \<comment> \<open>a document of the combined-header layout whose date paragraph has no comma\<close>
  "mondayDoc4a =
     \<lparr>docTitle = ''T'', docBody = ''claim number'',
      docParagraphs = [''Monday 11th November 2024''], docTableCells = [],
      docTables = [oneRowTable4a]\<rparr>"

definition mondayDoc5 :: document where
  \<comment> \<open>a possession schedule with the same date paragraph\<close>
  "mondayDoc5 =
     \<lparr>docTitle = ''T'',
      docBody = ''start time duration case details hearing type hearing channel'',
      docParagraphs = [''Monday 11th November 2024''], docTableCells = [],
      docTables = [possessionTable5]\<rparr>"

section \<open>Properties of the matcher\<close>

lemma reaches_refl: "den r [] \<Longrightarrow> reaches r st st"
  by (simp add: reaches_def)

lemma reaches_Seq: "reaches r1 st x \<Longrightarrow> reaches r2 x st' \<Longrightarrow> reaches (Seq r1 r2) st st'"
  unfolding reaches_def by (metis append.assoc den.simps(5) rev_append)

lemma den_Star_step: "den r x \<Longrightarrow> den (Star r) y \<Longrightarrow> den (Star r) (x @ y)"
proof -
  assume a: "den r x" and "den (Star r) y"
  then obtain us where us: "y = concat us" "\<forall>z\<in>set us. den r z" by auto
  then have "x @ y = concat (x # us) \<and> (\<forall>z\<in>set (x # us). den r z)" using a by simp
  then show ?thesis unfolding den.simps by blast
qed

lemma den_LazyStar_step: "den r x \<Longrightarrow> den (LazyStar r) y \<Longrightarrow> den (LazyStar r) (x @ y)"
proof -
  assume a: "den r x" and "den (LazyStar r) y"
  then obtain us where us: "y = concat us" "\<forall>z\<in>set us. den r z" by auto
  then have "x @ y = concat (x # us) \<and> (\<forall>z\<in>set (x # us). den r z)" using a by simp
  then show ?thesis unfolding den.simps by blast
qed

lemma reaches_Star: "reaches r st x \<Longrightarrow> reaches (Star r) x st' \<Longrightarrow> reaches (Star r) st st'"
  unfolding reaches_def using den_Star_step by (metis append.assoc rev_append)

lemma reaches_LazyStar: "reaches r st x \<Longrightarrow> reaches (LazyStar r) x st' \<Longrightarrow> reaches (LazyStar r) st st'"
  unfolding reaches_def using den_LazyStar_step by (metis append.assoc rev_append)

lemma den_Star_Nil: "den (Star r) []" "den (LazyStar r) []"
  by (auto intro: exI[of _ "[]"])

lemma m_sound: "st' \<in> set (m r st) \<Longrightarrow> reaches r st st'"
proof (induction r st arbitrary: st' rule: m.induct)
  case (1 c b s cs)
  then show ?case by (auto simp: m.simps(1) reaches_def split: list.splits if_splits)
next
  case (2 c b s cs)
  then show ?case by (auto simp: m.simps(2) reaches_def split: list.splits if_splits)
next
  case (3 p b s cs)
  then show ?case by (auto simp: m.simps(3) reaches_def split: list.splits if_splits)
next
  case (4 b s cs)
  then show ?case by (auto simp: m.simps(4) reaches_def)
next
  case (5 r1 r2 b s cs)
  from "5.prems" obtain x where x: "x \<in> set (m r1 (b, s, cs))" "st' \<in> set (m r2 x)"
    by (auto simp: m.simps(5))
  from "5.IH"(1)[OF x(1)] "5.IH"(2)[OF x(1) x(2)] show ?case by (rule reaches_Seq)
next
  case (6 r1 r2 b s cs)
  from "6.prems" have "st' \<in> set (m r1 (b, s, cs)) \<or> st' \<in> set (m r2 (b, s, cs))"
    by (simp add: m.simps(6))
  then show ?case using "6.IH"(1)[of st'] "6.IH"(2)[of st'] by (auto simp: reaches_def)
next
  case (7 r b s cs)
  from "7.prems" have "st' \<in> set (m r (b, s, cs)) \<or> st' = (b, s, cs)"
    by (auto simp: m.simps(7))
  then show ?case using "7.IH"[of st'] by (auto simp: reaches_def)
next
  case (8 r b s cs)
  from "8.prems"[unfolded m.simps(8)] consider "st' = (b, s, cs)"
    | x where "x \<in> set (m r (b, s, cs))" "shorter s x" "st' \<in> set (m (Star r) x)"
    by auto
  then show ?case
  proof cases
    case 1
    then show ?thesis using reaches_refl[OF den_Star_Nil(1)] by simp
  next
    case 2
    have "x \<in> set (filter (shorter s) (m r (b, s, cs)))" using 2 by simp
    from "8.IH"(1)[OF 2(1)] "8.IH"(2)[OF this 2(3)] show ?thesis by (rule reaches_Star)
  qed
next
  case (9 r b s cs)
  from "9.prems"[unfolded m.simps(9)] consider "st' = (b, s, cs)"
    | x where "x \<in> set (m r (b, s, cs))" "shorter s x" "st' \<in> set (m (LazyStar r) x)"
    by auto
  then show ?case
  proof cases
    case 1
    then show ?thesis using reaches_refl[OF den_Star_Nil(2)] by simp
  next
    case 2
    have "x \<in> set (filter (shorter s) (m r (b, s, cs)))" using 2 by simp
    from "9.IH"(1)[OF 2(1)] "9.IH"(2)[OF this 2(3)] show ?thesis by (rule reaches_LazyStar)
  qed
next
  case (10 r b s cs)
  from "10.prems" obtain x where x: "x \<in> set (m r (b, s, cs))"
    "st' = (case x of (b', s', cs') \<Rightarrow> (b', s', cs' @ [take (length s - length s') s]))"
    by (auto simp: m.simps(10))
  from "10.IH"[OF x(1)] x(2) show ?case by (cases x) (auto simp: reaches_def)
next
  case (11 b s cs)
  then show ?case by (auto simp: m.simps(11) reaches_def split: if_splits)
next
  case (12 b s cs)
  then show ?case by (auto simp: m.simps(12) reaches_def split: if_splits)
next
  case (13 b s cs)
  then show ?case by (auto simp: m.simps(13) reaches_def split: if_splits)
qed

lemma rxMatchAt_sound:
  "rxMatchAt r b s = Some (b', s', caps) \<Longrightarrow> \<exists>u. s = u @ s' \<and> b' = rev u @ b \<and> den r u"
  using m_sound[of "(b', s', caps)" r "(b, s, [])"]
  by (auto simp: rxMatchAt_def reaches_def split: list.splits)

lemma rxExecFrom_sound:
  "rxExecFrom r b s = Some (b0, (b', s', caps))
   \<Longrightarrow> \<exists>pre u. s = pre @ u @ s' \<and> b0 = rev pre @ b \<and> b' = rev u @ b0 \<and> den r u"
proof (induction r b s rule: rxExecFrom.induct)
  case (1 r b)
  then show ?case using rxMatchAt_sound[of r b "[]" b' s' caps]
    by (auto split: option.splits)
next
  case (2 r b c cs)
  show ?case
  proof (cases "rxMatchAt r b (c # cs)")
    case None
    with 2 obtain pre u where "cs = pre @ u @ s'" "b0 = rev pre @ c # b" "b' = rev u @ b0" "den r u"
      by auto
    then have "c # cs = (c # pre) @ u @ s' \<and> b0 = rev (c # pre) @ b \<and> b' = rev u @ b0 \<and> den r u"
      by simp
    then show ?thesis by blast
  next
    case (Some st)
    with 2(2) have "st = (b', s', caps)" "b0 = b" by auto
    with Some rxMatchAt_sound[of r b "c # cs" b' s' caps]
    obtain u where "c # cs = [] @ u @ s' \<and> b0 = rev [] @ b \<and> b' = rev u @ b0 \<and> den r u"
      by auto
    then show ?thesis by blast
  qed
qed

lemma rxTest_sound: "rxTest r s \<Longrightarrow> \<exists>pre u post. s = pre @ u @ post \<and> den r u"
  unfolding rxTest_def using rxExecFrom_sound[of r "[]" s] by fastforce

lemma rxExecFrom_None:
  "rxExecFrom r b (pre @ suf) = None \<Longrightarrow> rxMatchAt r (rev pre @ b) suf = None"
proof (induction pre arbitrary: b)
  case Nil
  then show ?case by (cases suf) (auto split: option.splits)
next
  case (Cons a pre)
  then show ?case by (auto split: option.splits)
qed

lemma rxTest_complete: "rxMatchAt r (rev pre) suf \<noteq> None \<Longrightarrow> rxTest r (pre @ suf)"
  unfolding rxTest_def using rxExecFrom_None[of r "[]" pre suf]
  by (cases "rxExecFrom r [] (pre @ suf)") auto


lemma m_caps:
  "capCount r = Some k \<Longrightarrow> st' \<in> set (m r st) \<Longrightarrow> length (snd (snd st')) = length (snd (snd st)) + k"
proof (induction r st arbitrary: k st' rule: m.induct)
  case (1 c b s cs)
  then show ?case by (auto simp: m.simps(1) split: list.splits if_splits)
next
  case (2 c b s cs)
  then show ?case by (auto simp: m.simps(2) split: list.splits if_splits)
next
  case (3 p b s cs)
  then show ?case by (auto simp: m.simps(3) split: list.splits if_splits)
next
  case (4 b s cs)
  then show ?case by (auto simp: m.simps(4))
next
  case (5 r1 r2 b s cs)
  from "5.prems"(1) obtain k1 k2 where k: "capCount r1 = Some k1" "capCount r2 = Some k2" "k = k1 + k2"
    by (auto split: option.splits)
  from "5.prems"(2) obtain x where x: "x \<in> set (m r1 (b, s, cs))" "st' \<in> set (m r2 x)"
    by (auto simp: m.simps(5))
  from "5.IH"(1)[OF k(1) x(1)] "5.IH"(2)[OF x(1) k(2) x(2)] k(3) show ?case by simp
next
  case (6 r1 r2 b s cs)
  from "6.prems"(1) have k: "capCount r1 = Some k" "capCount r2 = Some k"
    by (auto split: option.splits if_splits)
  from "6.prems"(2) have "st' \<in> set (m r1 (b, s, cs)) \<or> st' \<in> set (m r2 (b, s, cs))"
    by (simp add: m.simps(6))
  then show ?case using "6.IH"(1)[OF k(1), of st'] "6.IH"(2)[OF k(2), of st'] by blast
next
  case (7 r b s cs)
  from "7.prems"(1) have k: "capCount r = Some 0" "k = 0" by (auto split: if_splits)
  from "7.prems"(2) have "st' \<in> set (m r (b, s, cs)) \<or> st' = (b, s, cs)"
    by (auto simp: m.simps(7))
  then show ?case using "7.IH"[OF k(1), of st'] k(2) by auto
next
  case (8 r b s cs)
  from "8.prems"(1) have k: "capCount r = Some 0" "k = 0" "capCount (Star r) = Some 0"
    by (auto split: if_splits)
  from "8.prems"(2)[unfolded m.simps(8)] consider "st' = (b, s, cs)"
    | x where "x \<in> set (m r (b, s, cs))" "shorter s x" "st' \<in> set (m (Star r) x)"
    by auto
  then show ?case
  proof cases
    case 1
    then show ?thesis using k by simp
  next
    case 2
    have "x \<in> set (filter (shorter s) (m r (b, s, cs)))" using 2 by simp
    from "8.IH"(1)[OF k(1) 2(1)] "8.IH"(2)[OF this k(3) 2(3)] k(2) show ?thesis by simp
  qed
next
  case (9 r b s cs)
  from "9.prems"(1) have k: "capCount r = Some 0" "k = 0" "capCount (LazyStar r) = Some 0"
    by (auto split: if_splits)
  from "9.prems"(2)[unfolded m.simps(9)] consider "st' = (b, s, cs)"
    | x where "x \<in> set (m r (b, s, cs))" "shorter s x" "st' \<in> set (m (LazyStar r) x)"
    by auto
  then show ?case
  proof cases
    case 1
    then show ?thesis using k by simp
  next
    case 2
    have "x \<in> set (filter (shorter s) (m r (b, s, cs)))" using 2 by simp
    from "9.IH"(1)[OF k(1) 2(1)] "9.IH"(2)[OF this k(3) 2(3)] k(2) show ?thesis by simp
  qed
next
  case (10 r b s cs)
  from "10.prems"(1) obtain j where k: "capCount r = Some j" "k = Suc j" by auto
  from "10.prems"(2) obtain x where x: "x \<in> set (m r (b, s, cs))"
    "st' = (case x of (b', s', cs') \<Rightarrow> (b', s', cs' @ [take (length s - length s') s]))"
    by (auto simp: m.simps(10))
  from "10.IH"[OF k(1) x(1)] x(2) k(2) show ?case by (cases x) auto
next
  case (11 b s cs)
  then show ?case by (auto simp: m.simps(11) split: if_splits)
next
  case (12 b s cs)
  then show ?case by (auto simp: m.simps(12) split: if_splits)
next
  case (13 b s cs)
  then show ?case by (auto simp: m.simps(13) split: if_splits)
qed

lemma rxMatchAt_caps:
  "capCount r = Some k \<Longrightarrow> rxMatchAt r b s = Some (b', s', caps) \<Longrightarrow> length caps = k"
  using m_caps[of r k "(b', s', caps)" "(b, s, [])"]
  by (auto simp: rxMatchAt_def split: list.splits)

lemma rxSplitLoop_odd:
  "capCount r = Some 1 \<Longrightarrow> odd (length (rxSplitLoop r piece b s))"
proof (induction r piece b s rule: rxSplitLoop.induct)
  case (1 r piece b)
  then show ?case by simp
next
  case (2 r piece b c cs)
  show ?case
  proof (cases "rxMatchAt r b (c # cs)")
    case None
    then show ?thesis using 2 by simp
  next
    case (Some st)
    obtain b' s' caps where st: "st = (b', s', caps)" by (cases st) auto
    have len: "length caps = 1" using rxMatchAt_caps[OF 2(5)] Some st by auto
    show ?thesis using 2 Some st len by (auto split: if_splits)
  qed
qed

lemma rxSplitLoop_nonempty: "rxSplitLoop r piece b s \<noteq> []"
  by (induction r piece b s rule: rxSplitLoop.induct) (auto split: option.splits)

lemma rxSplitLoop_no_match:
  "rxExecFrom r b s = None \<Longrightarrow> rxSplitLoop r piece b s = [rev piece @ s]"
  by (induction r piece b s rule: rxSplitLoop.induct) (auto split: option.splits)

section \<open>Tokens and the expressions that look for them\<close>

lemma ciEq_length: "ciEq x w \<Longrightarrow> length x = length w"
  unfolding ciEq_def by (metis length_map)

lemma den_litI: "den (litI w) x = ciEq x w"
proof (induction w arbitrary: x)
  case Nil
  then show ?case by (simp add: litI_def ciEq_def)
next
  case (Cons c w)
  have l: "litI (c # w) = Seq (LitI c) (litI w)" by (simp add: litI_def)
  show ?case
  proof
    assume "den (litI (c # w)) x"
    then obtain a y where "x = a # y" "asciiLower a = asciiLower c" "den (litI w) y"
      unfolding l by auto
    then show "ciEq x (c # w)" using Cons[of y] by (simp add: ciEq_def)
  next
    assume a: "ciEq x (c # w)"
    then obtain a y where x: "x = a # y" by (cases x) (auto simp: ciEq_def)
    with a have "asciiLower a = asciiLower c" "ciEq y w" by (simp_all add: ciEq_def)
    then have "a # y = [a] @ y \<and> den (LitI c) [a] \<and> den (litI w) y" using Cons[of y] by simp
    then show "den (litI (c # w)) x" unfolding l x den.simps(5) by blast
  qed
qed

lemma containsCI_intro: "ciEq x w \<Longrightarrow> containsCI w (pre @ x @ post)"
proof (induction pre)
  case Nil
  have len: "length x = length w" using Nil by (rule ciEq_length)
  show ?case
  proof (cases "x @ post")
    case Nil
    with len show ?thesis by simp
  next
    case (Cons c cs)
    have "ciPrefix w (x @ post)" using Nil len by (simp add: ciPrefix_def)
    then show ?thesis using Cons by simp
  qed
next
  case (Cons a pre)
  then show ?case by simp
qed

lemma containsCI_elim:
  "containsCI w s \<Longrightarrow> \<exists>pre x post. s = pre @ x @ post \<and> ciEq x w"
proof (induction s)
  case Nil
  then show ?case by (simp add: ciEq_def)
next
  case (Cons c cs)
  show ?case
  proof (cases "ciPrefix w (c # cs)")
    case True
    then have "c # cs = [] @ take (length w) (c # cs) @ drop (length w) (c # cs)
      \<and> ciEq (take (length w) (c # cs)) w"
      by (simp add: ciPrefix_def)
    then show ?thesis by blast
  next
    case False
    with Cons obtain pre x post where "cs = pre @ x @ post" "ciEq x w" by auto
    then have "c # cs = (c # pre) @ x @ post \<and> ciEq x w" by simp
    then show ?thesis by blast
  qed
qed

lemma rxPossessions_sound: "rxTest rxPossessions h \<Longrightarrow> containsCI ''possession'' h"
proof -
  assume "rxTest rxPossessions h"
  then obtain pre u post where u: "h = pre @ u @ post" "den rxPossessions u"
    using rxTest_sound by blast
  from u(2) obtain x y where xy: "u = x @ y" "den (litI ''possession'') x"
    unfolding rxPossessions_def seqs_def by auto
  from xy(2) have "ciEq x ''possession''" by (simp add: den_litI)
  then have "containsCI ''possession'' (pre @ x @ (y @ post))" by (rule containsCI_intro)
  then show ?thesis using u(1) xy(1) by simp
qed

section \<open>Finding a phrase in the body text\<close>

subsection \<open>Characters\<close>

lemma isSpace_asciiLower: "isSpace x \<Longrightarrow> asciiLower x = x"
  by (auto simp: isSpace_def asciiLower_def isUpper_def Let_def)

lemma isSpace_lowerChar: "isSpace x \<Longrightarrow> lowerChar x = x"
  by (auto simp: isSpace_def lowerChar_def Let_def)

lemma ci_not_space: "asciiLower x = d \<Longrightarrow> \<not> isSpace d \<Longrightarrow> \<not> isSpace x"
  using isSpace_asciiLower by auto

lemma isLower_asciiLower: "isLower c \<Longrightarrow> asciiLower c = c"
  by (auto simp: isLower_def asciiLower_def isUpper_def Let_def)

lemma isLower_not_space: "isLower c \<Longrightarrow> \<not> isSpace c"
  by (auto simp: isLower_def isSpace_def Let_def)

lemma lower_of_ci: "isLower c \<Longrightarrow> asciiLower x = c \<Longrightarrow> lowerChar x = c"
  by (auto simp: asciiLower_def lowerChar_def isUpper_def isLower_def Let_def split: if_splits)

lemma ciEq_lower: "list_all isLower a \<Longrightarrow> ciEq x a \<Longrightarrow> map lowerChar x = a"
proof (induction a arbitrary: x)
  case Nil
  then show ?case by (simp add: ciEq_def)
next
  case (Cons c a)
  from Cons.prems(2) obtain y ys where x: "x = y # ys" by (cases x) (auto simp: ciEq_def)
  with Cons.prems have "asciiLower y = c" "ciEq ys a" "isLower c" "list_all isLower a"
    by (auto simp: ciEq_def isLower_asciiLower)
  then show ?case using Cons.IH[of ys] x by (simp add: lower_of_ci)
qed

subsection \<open>Collapsing white space\<close>

lemma collapseFrom_append:
  "collapseFrom f (p @ q) = collapseFrom f p @ collapseFrom (if p = [] then f else isSpace (last p)) q"
  by (induction p arbitrary: f) auto

lemma collapseFrom_no_space: "\<forall>c\<in>set a. \<not> isSpace c \<Longrightarrow> collapseFrom f a = a"
  by (induction a arbitrary: f) auto

lemma collapseFrom_True_spaces: "list_all isSpace w \<Longrightarrow> collapseFrom True w = []"
  by (induction w) auto

lemma collapseFrom_spaces: "list_all isSpace w \<Longrightarrow> list_all isSpace (collapseFrom f w)"
  by (induction w arbitrary: f) (auto simp: collapseFrom_True_spaces isSpace_def)

lemma collapse_phrase:
  assumes "\<forall>c\<in>set a. \<not> isSpace c" and "list_all isSpace w"
  shows "\<exists>p w' q. collapseFrom f (pre @ a @ w @ rest) = p @ a @ w' @ q \<and> list_all isSpace w'
           \<and> (\<exists>g. q = collapseFrom g rest)"
proof -
  let ?f1 = "if pre = [] then f else isSpace (last pre)"
  let ?f2 = "if a = [] then ?f1 else isSpace (last a)"
  let ?f3 = "if w = [] then ?f2 else isSpace (last w)"
  have "collapseFrom f (pre @ a @ w @ rest)
    = collapseFrom f pre @ a @ collapseFrom ?f2 w @ collapseFrom ?f3 rest"
    using assms(1) by (simp add: collapseFrom_append collapseFrom_no_space)
  moreover have "list_all isSpace (collapseFrom ?f2 w)" using assms(2) by (rule collapseFrom_spaces)
  ultimately show ?thesis by blast
qed

subsection \<open>Matches that exist\<close>

lemma m_Seq_mem: "x \<in> set (m r1 st) \<Longrightarrow> y \<in> set (m r2 x) \<Longrightarrow> y \<in> set (m (Seq r1 r2) st)"
  by (cases st) (auto simp: m.simps(5))

lemma m_Eps_mem: "st \<in> set (m Eps st)"
  by (cases st) (simp add: m.simps(4))

lemma m_Opt_skip: "st \<in> set (m (Opt r) st)"
  by (cases st) (simp add: m.simps(7))

lemma m_LitI_mem: "asciiLower x = asciiLower c \<Longrightarrow> (x # b, xs, cs) \<in> set (m (LitI c) (b, x # xs, cs))"
  by (simp add: m.simps(2))

lemma m_litI_mem: "ciEq x w \<Longrightarrow> (rev x @ b, rest, cs) \<in> set (m (litI w) (b, x @ rest, cs))"
proof (induction w arbitrary: x b)
  case Nil
  then show ?case by (simp add: litI_def ciEq_def m.simps(4))
next
  case (Cons c w)
  have l: "litI (c # w) = Seq (LitI c) (litI w)" by (simp add: litI_def)
  from Cons.prems obtain y ys where x: "x = y # ys" by (cases x) (auto simp: ciEq_def)
  with Cons.prems have c: "asciiLower y = asciiLower c" "ciEq ys w" by (auto simp: ciEq_def)
  have 1: "(y # b, ys @ rest, cs) \<in> set (m (LitI c) (b, x @ rest, cs))"
    using c(1) x by (simp add: m.simps(2))
  have 2: "(rev ys @ y # b, rest, cs) \<in> set (m (litI w) (y # b, ys @ rest, cs))"
    using Cons.IH[OF c(2)] .
  from m_Seq_mem[OF 1 2] show ?case unfolding l x by simp
qed

lemma m_Star_spaces:
  "list_all isSpace w \<Longrightarrow> (rev w @ b, rest, cs) \<in> set (m (Star ws) (b, w @ rest, cs))"
proof (induction w arbitrary: b)
  case Nil
  show ?case by (subst m.simps(8)) simp
next
  case (Cons c w)
  then have c: "isSpace c" "list_all isSpace w" by simp_all
  have 1: "m ws (b, (c # w) @ rest, cs) = [(c # b, w @ rest, cs)]"
    using c(1) by (simp add: ws_def m.simps(3))
  have 2: "shorter ((c # w) @ rest) (c # b, w @ rest, cs)" by (simp add: shorter_def)
  have 3: "(rev w @ c # b, rest, cs) \<in> set (m (Star ws) (c # b, w @ rest, cs))"
    using Cons.IH[OF c(2)] .
  show ?case
    unfolding m.simps(8)[of ws b "(c # w) @ rest" cs] 1 using 2 3 by simp
qed

lemma rxMatchAt_mem: "st \<in> set (m r (b, s, [])) \<Longrightarrow> rxMatchAt r b s \<noteq> None"
  by (cases "m r (b, s, [])") (auto simp: rxMatchAt_def)

lemma rxMatchAt_phrase:
  assumes "ciEq x a" and "list_all isSpace w" and "ciEq y b"
  shows "rxMatchAt (seqs [litI a, Star ws, litI b]) before (x @ w @ y @ rest) \<noteq> None"
proof -
  have s: "seqs [litI a, Star ws, litI b] = Seq (litI a) (Seq (Star ws) (Seq (litI b) Eps))"
    by (simp add: seqs_def)
  have 1: "(rev x @ before, w @ y @ rest, []) \<in> set (m (litI a) (before, x @ w @ y @ rest, []))"
    using assms(1) by (rule m_litI_mem)
  have 2: "(rev w @ rev x @ before, y @ rest, []) \<in> set (m (Star ws) (rev x @ before, w @ y @ rest, []))"
    using assms(2) by (rule m_Star_spaces)
  have 3: "(rev y @ rev w @ rev x @ before, rest, [])
      \<in> set (m (litI b) (rev w @ rev x @ before, y @ rest, []))"
    using assms(3) by (rule m_litI_mem)
  from m_Seq_mem[OF 3 m_Eps_mem] have 4: "(rev y @ rev w @ rev x @ before, rest, [])
      \<in> set (m (Seq (litI b) Eps) (rev w @ rev x @ before, y @ rest, []))" .
  from m_Seq_mem[OF 1 m_Seq_mem[OF 2 4]] show ?thesis unfolding s by (rule rxMatchAt_mem)
qed

subsection \<open>A phrase in a text\<close>

lemma phraseAt_parts:
  assumes "phraseAt a b s"
  shows "\<exists>x w y rest. s = x @ w @ y @ rest \<and> ciEq x a \<and> list_all isSpace w \<and> ciEq y b"
proof -
  let ?r = "drop (length a) s"
  from assms have 1: "ciEq (take (length a) s) a" "ciEq (take (length b) (dropWhile isSpace ?r)) b"
    by (simp_all add: phraseAt_def ciPrefix_def)
  have "s = take (length a) s @ takeWhile isSpace ?r @ take (length b) (dropWhile isSpace ?r)
      @ drop (length b) (dropWhile isSpace ?r)"
    by (metis append_take_drop_id takeWhile_dropWhile_id)
  moreover have "list_all isSpace (takeWhile isSpace ?r)"
    by (simp add: list_all_iff) (meson set_takeWhileD)
  ultimately show ?thesis using 1 by blast
qed

lemma containsPhrase_parts:
  "containsPhrase a b s
   \<Longrightarrow> \<exists>pre x w y rest. s = pre @ x @ w @ y @ rest \<and> ciEq x a \<and> list_all isSpace w \<and> ciEq y b"
proof (induction s)
  case Nil
  from phraseAt_parts[of a b "[]"] Nil show ?case by fastforce
next
  case (Cons c cs)
  show ?case
  proof (cases "phraseAt a b (c # cs)")
    case True
    from phraseAt_parts[OF True] obtain x w y rest where
      "c # cs = [] @ x @ w @ y @ rest \<and> ciEq x a \<and> list_all isSpace w \<and> ciEq y b" by auto
    then show ?thesis by blast
  next
    case False
    with Cons obtain pre x w y rest where
      "cs = pre @ x @ w @ y @ rest" "ciEq x a" "list_all isSpace w" "ciEq y b" by auto
    then have "c # cs = (c # pre) @ x @ w @ y @ rest \<and> ciEq x a \<and> list_all isSpace w \<and> ciEq y b"
      by simp
    then show ?thesis by blast
  qed
qed

lemma phrase_in_text_content:
  assumes a: "list_all isLower a" and b: "list_all isLower b"
    and c: "containsPhrase a b body"
  shows "rxTest (seqs [litI a, Star ws, litI b]) (collapseWs (toLowerCase body))"
proof -
  from containsPhrase_parts[OF c] obtain pre x w y rest where
    p: "body = pre @ x @ w @ y @ rest" "ciEq x a" "list_all isSpace w" "ciEq y b" by blast
  have w: "map lowerChar w = w" using p(3) by (induction w) (auto simp: isSpace_lowerChar)
  have low: "toLowerCase body = map lowerChar pre @ a @ w @ (b @ map lowerChar rest)"
    using p(1) ciEq_lower[OF a p(2)] ciEq_lower[OF b p(4)] w by (simp add: toLowerCase_def)
  have nsa: "\<forall>c\<in>set a. \<not> isSpace c" using a by (auto simp: list_all_iff isLower_not_space)
  have nsb: "\<forall>c\<in>set b. \<not> isSpace c" using b by (auto simp: list_all_iff isLower_not_space)
  from collapse_phrase[OF nsa p(3), of False "map lowerChar pre" "b @ map lowerChar rest"]
  obtain p' w' q g where c1: "collapseWs (toLowerCase body) = p' @ a @ w' @ q" "list_all isSpace w'"
    "q = collapseFrom g (b @ map lowerChar rest)"
    unfolding collapseWs_def low by blast
  have "q = b @ collapseFrom (if b = [] then g else isSpace (last b)) (map lowerChar rest)"
    using c1(3) nsb by (simp add: collapseFrom_append collapseFrom_no_space)
  then obtain q' where c2: "collapseWs (toLowerCase body) = p' @ a @ w' @ b @ q'"
    using c1(1) by blast
  have "ciEq a a" "ciEq b b" by (simp_all add: ciEq_def)
  from rxMatchAt_phrase[OF this(1) c1(2) this(2), of "rev p'" q']
  have "rxTest (seqs [litI a, Star ws, litI b]) (p' @ a @ w' @ b @ q')" by (rule rxTest_complete)
  then show ?thesis unfolding c2 .
qed

section \<open>Separator tokens\<close>

lemma den_plus_ws: "den (plus ws) x \<Longrightarrow> x \<noteq> [] \<and> list_all isSpace x"
proof -
  assume "den (plus ws) x"
  then obtain a us where x: "x = a # concat us" "isSpace a" "\<forall>z\<in>set us. \<exists>c. z = [c] \<and> isSpace c"
    by (auto simp: plus_def ws_def)
  have "\<forall>c\<in>set (concat us). isSpace c"
  proof
    fix c assume "c \<in> set (concat us)"
    then obtain z where "z \<in> set us" "c \<in> set z" by auto
    with x(3) show "isSpace c" by fastforce
  qed
  with x(1,2) show ?thesis by (simp add: list_all_iff)
qed

lemma separatorAt_intro:
  assumes "w1 \<noteq> []" "list_all isSpace w1" "ciEq t tok" "tok \<in> set toks" "t \<noteq> []"
    "\<not> isSpace (hd t)" "w2 \<noteq> []" "list_all isSpace w2"
  shows "separatorAt toks (w1 @ t @ w2 @ post)"
proof -
  have d: "dropWhile isSpace (w1 @ t @ w2 @ post) = t @ w2 @ post"
  proof -
    have "dropWhile isSpace (w1 @ t @ w2 @ post) = dropWhile isSpace (t @ w2 @ post)"
      using assms(2) by (simp add: list_all_iff dropWhile_append2)
    also have "\<dots> = t @ w2 @ post" using assms(5,6) by (cases t) auto
    finally show ?thesis .
  qed
  have len: "length t = length tok" using assms(3) by (rule ciEq_length)
  have p: "ciPrefix tok (t @ w2 @ post)" using assms(3) len by (simp add: ciPrefix_def)
  have r: "drop (length tok) (t @ w2 @ post) = w2 @ post" using len by simp
  have h1: "isSpace (hd (w1 @ t @ w2 @ post))" using assms(1,2) by (cases w1) auto
  have h2: "isSpace (hd (w2 @ post))" using assms(7,8) by (cases w2) auto
  have "ciPrefix tok (dropWhile isSpace (w1 @ t @ w2 @ post))
      \<and> (let r = drop (length tok) (dropWhile isSpace (w1 @ t @ w2 @ post)) in r \<noteq> [] \<and> isSpace (hd r))"
    unfolding d Let_def r using p h2 assms(7) by simp
  with assms(4) have "list_ex (\<lambda>tok. ciPrefix tok (dropWhile isSpace (w1 @ t @ w2 @ post))
      \<and> (let r = drop (length tok) (dropWhile isSpace (w1 @ t @ w2 @ post)) in r \<noteq> [] \<and> isSpace (hd r)))
      toks"
    unfolding list_ex_iff by blast
  with assms(1) h1 show ?thesis unfolding separatorAt_def by simp
qed

lemma hasSeparator_intro: "separatorAt toks s \<Longrightarrow> hasSeparator toks (pre @ s)"
proof (induction pre)
  case Nil
  then show ?case by (cases s) (auto simp: separatorAt_def)
next
  case (Cons a pre)
  then show ?case by simp
qed

lemma separatorAt_mono: "set toks \<subseteq> set toks' \<Longrightarrow> separatorAt toks s \<Longrightarrow> separatorAt toks' s"
  unfolding separatorAt_def list_ex_iff by blast

lemma hasSeparator_mono: "set toks \<subseteq> set toks' \<Longrightarrow> hasSeparator toks s \<Longrightarrow> hasSeparator toks' s"
  by (induction s) (auto dest: separatorAt_mono)

lemma ciEq_hd_not_space:
  assumes "ciEq t tok" and "tok \<noteq> []" and "\<not> isSpace (asciiLower (hd tok))"
  shows "t \<noteq> [] \<and> \<not> isSpace (hd t)"
proof -
  from assms(1,2) obtain a as where t: "t = a # as" by (cases t) (auto simp: ciEq_def)
  with assms(1,2) have "asciiLower a = asciiLower (hd tok)" by (cases tok) (auto simp: ciEq_def)
  from ci_not_space[OF this assms(3)] t show ?thesis by simp
qed

lemma sep_sound:
  assumes "rxTest (seqs [plus ws, Grp (alts [litI t1, litI t2]), plus ws]) s"
    and "t1 \<noteq> []" "\<not> isSpace (asciiLower (hd t1))" "t2 \<noteq> []" "\<not> isSpace (asciiLower (hd t2))"
  shows "hasSeparator [t1, t2] s"
proof -
  from rxTest_sound[OF assms(1)] obtain pre u post where
    u: "s = pre @ u @ post" "den (seqs [plus ws, Grp (alts [litI t1, litI t2]), plus ws]) u" by blast
  from u(2) obtain w1 t w2 where
    p: "u = w1 @ t @ w2" "den (plus ws) w1" "ciEq t t1 \<or> ciEq t t2" "den (plus ws) w2"
    by (auto simp: seqs_def den_litI)
  from p(3) obtain tok where tok: "ciEq t tok" "tok \<in> set [t1, t2]" "tok \<noteq> []"
    "\<not> isSpace (asciiLower (hd tok))" using assms(2-5) by auto
  from ciEq_hd_not_space[OF tok(1,3,4)] den_plus_ws[OF p(2)] den_plus_ws[OF p(4)] tok(1,2)
  have "separatorAt [t1, t2] (w1 @ t @ w2 @ post)" by (intro separatorAt_intro) auto
  then have "hasSeparator [t1, t2] (pre @ w1 @ t @ w2 @ post)" by (rule hasSeparator_intro)
  then show ?thesis using u(1) p(1) by simp
qed

lemma token_heads:
  "\<not> isSpace (asciiLower (hd ''v''))" "\<not> isSpace (asciiLower (hd ''vs''))"
  "\<not> isSpace (asciiLower (hd ''-v-''))" "\<not> isSpace (asciiLower (hd ''-vs-''))"
  by code_simp+

lemma no_separator_no_match:
  assumes "\<not> hasSeparator [''v'', ''vs'', ''-v-'', ''-vs-'', ''versus''] s"
  shows "\<not> rxTest rxV s" and "\<not> rxTest rxDashV s"
proof -
  show "\<not> rxTest rxV s"
  proof
    assume "rxTest rxV s"
    then have "hasSeparator [''v'', ''vs''] s"
      unfolding rxV_def using token_heads by (intro sep_sound) simp_all
    then have "hasSeparator [''v'', ''vs'', ''-v-'', ''-vs-'', ''versus''] s"
      by (rule hasSeparator_mono[rotated]) simp
    with assms show False by simp
  qed
  show "\<not> rxTest rxDashV s"
  proof
    assume "rxTest rxDashV s"
    then have "hasSeparator [''-v-'', ''-vs-''] s"
      unfolding rxDashV_def using token_heads by (intro sep_sound) simp_all
    then have "hasSeparator [''v'', ''vs'', ''-v-'', ''-vs-'', ''versus''] s"
      by (rule hasSeparator_mono[rotated]) simp
    with assms show False by simp
  qed
qed

lemma rxLooseV_iff: "rxTest rxLooseV s = containsCI ''v'' s"
proof
  assume "rxTest rxLooseV s"
  from rxTest_sound[OF this] obtain pre u post where u: "s = pre @ u @ post" "den rxLooseV u"
    by blast
  from u(2) obtain w1 a rest where p: "u = w1 @ [a] @ rest" "asciiLower a = asciiLower CHR ''v''"
    by (auto simp: rxLooseV_def seqs_def)
  then have "ciEq [a] ''v''" by (simp add: ciEq_def)
  then have "containsCI ''v'' ((pre @ w1) @ [a] @ (rest @ post))" by (rule containsCI_intro)
  then show "containsCI ''v'' s" using u(1) p(1) by simp
next
  assume "containsCI ''v'' s"
  from containsCI_elim[OF this] obtain pre x post where x: "s = pre @ x @ post" "ciEq x ''v''"
    by blast
  from x(2) obtain a where a: "x = [a]" "asciiLower a = asciiLower CHR ''v''"
    by (cases x) (auto simp: ciEq_def)
  let ?b = "rev pre"
  have s: "rxLooseV = Seq (Star ws) (Seq (LitI CHR ''v'') (Seq (Opt (LitI CHR ''s'')) (Seq (Star ws) Eps)))"
    by (simp add: rxLooseV_def seqs_def)
  have 1: "(?b, a # post, []) \<in> set (m (Star ws) (?b, a # post, []))"
    using m_Star_spaces[of "[]" ?b "a # post" "[]"] by simp
  have 2: "(a # ?b, post, []) \<in> set (m (LitI CHR ''v'') (?b, a # post, []))"
    using a(2) by (rule m_LitI_mem)
  have 3: "(a # ?b, post, []) \<in> set (m (Opt (LitI CHR ''s'')) (a # ?b, post, []))"
    by (rule m_Opt_skip)
  have 4: "(a # ?b, post, []) \<in> set (m (Star ws) (a # ?b, post, []))"
    using m_Star_spaces[of "[]" "a # ?b" post "[]"] by simp
  from m_Seq_mem[OF 1 m_Seq_mem[OF 2 m_Seq_mem[OF 3 m_Seq_mem[OF 4 m_Eps_mem]]]]
  have "rxMatchAt rxLooseV ?b (a # post) \<noteq> None" unfolding s by (rule rxMatchAt_mem)
  then have "rxTest rxLooseV (pre @ a # post)" by (rule rxTest_complete)
  then show "rxTest rxLooseV s" using x(1) a(1) by simp
qed

lemma rxSplit_no_match:
  assumes "\<not> rxTest r s" and "rxMatchAt r [] [] = None"
  shows "rxSplit r s = [s]"
proof (cases "s = []")
  case True
  then show ?thesis using assms(2) by (simp add: rxSplit_def)
next
  case False
  from assms(1) have "rxExecFrom r [] s = None" unfolding rxTest_def by blast
  from rxSplitLoop_no_match[OF this, of "[]"] False show ?thesis by (simp add: rxSplit_def)
qed

lemma partiesOf_single: "partiesOf [s] = Inr (stripPipes (trim s), notProvided)"
  by (simp add: partiesOf_def trimOf_def)

lemma smith_v_jones:
  "splitParties5 ''Smith v Jones'' = Inr (''Smith'', ''Jones'')"
  "splitParties7 (Some ''Smith v Jones'') = Inr (''Smith'', ''Jones'')"
  by code_simp+

section \<open>The court date\<close>

lemma comma_free_november: "strIncludes ''15th November 2024'' '','' = False"
  by code_simp

lemma stripOrdinal_november: "stripOrdinal ''15th November 2024'' = ''15 November 2024''"
  by code_simp

lemma formatDMY_november:
  "formatDMY \<lparr>getDate = 15, getMonth = 10, getFullYear = 2024\<rparr> = ''15/11/2024''"
  by code_simp

lemma formatDMY_october:
  "formatDMY \<lparr>getDate = 18, getMonth = 9, getFullYear = 2024\<rparr> = ''18/10/2024''"
  by code_simp

text \<open>
  The copy of \<open>formatCourtDate\<close> in \<open>extractDataTemplate5\<close> parses a date without a comma
  as a whole, once the runtime reads \<open>15 November 2024\<close> as that day.
\<close>

lemma formatCourtDate5_comma_free:
  assumes "D ''15 November 2024'' = Some \<lparr>getDate = 15, getMonth = 10, getFullYear = 2024\<rparr>"
  shows "formatCourtDate5 D ''15th November 2024'' = ''15/11/2024''"
  unfolding formatCourtDate5_def
  by (simp only: comma_free_november if_False stripOrdinal_november assms option.case
      formatDMY_november)

text \<open>
  With a comma, all four copies give the day after the weekday, once the runtime rejects
  the bare weekday and reads \<open>18 October 2024\<close> as that day.
\<close>

lemma october_parts:
  "strIncludes ''Tuesday, 18th October 2024'' '','' = True"
  "strSplit '','' ''Tuesday, 18th October 2024'' = [''Tuesday'', '' 18th October 2024'']"
  "stripOrdinal (replaceWelsh (trim ''Tuesday'')) = ''Tuesday''"
  "stripOrdinal (replaceWelsh (trim '' 18th October 2024'')) = ''18 October 2024''"
  by code_simp+

lemma formatCourtDate4_with_comma:
  assumes "D ''Tuesday'' = None"
    and "D ''18 October 2024'' = Some \<lparr>getDate = 18, getMonth = 9, getFullYear = 2024\<rparr>"
  shows "formatCourtDate4 D ''Tuesday, 18th October 2024'' = ''18/10/2024''"
  unfolding formatCourtDate4_def
  by (simp only: october_parts if_True tryParts.simps assms option.case formatDMY_october)

lemma formatCourtDate5_with_comma:
  assumes "D ''18 October 2024'' = Some \<lparr>getDate = 18, getMonth = 9, getFullYear = 2024\<rparr>"
  shows "formatCourtDate5 D ''Tuesday, 18th October 2024'' = ''18/10/2024''"
proof -
  have p1: "nth_opt [''Tuesday'', '' 18th October 2024''] (Some 1) = Some '' 18th October 2024''"
    by simp
  have ne: "orElse (Some '' 18th October 2024'') [] = '' 18th October 2024''"
    by (simp add: orElse_def)
  show ?thesis
    unfolding formatCourtDate5_def Let_def
    by (simp add: october_parts p1 ne assms formatDMY_october)
qed

text \<open>
  The scan of the paragraphs accepts a date without a comma and hands it on.  The
  possession schedule formats it; the combined-header layout, whose copy of
  \<open>formatCourtDate\<close> wants a comma, loses it.
\<close>

lemma comma_free_date_scanned:
  "foldl (scanParagraph sampleDates) ([], []) (docParagraphs mondayDoc4a)
     = ([], ''Monday 11 November 2024'')"
  by code_simp

lemma comma_free_date_kept:
  "map_sum id (map CourtDate) (scrapeDataFromHtml sampleDates mondayDoc5) = Inr [''11/11/2024'']"
  by code_simp

lemma comma_free_date_lost:
  "map_sum id (map CourtDate) (scrapeDataFromHtml sampleDates mondayDoc4a) = Inr [[]]"
  by code_simp

lemma formatCourtDate4_needs_comma: "\<not> strIncludes s '','' \<Longrightarrow> formatCourtDate4 D s = []"
  by (simp add: formatCourtDate4_def)

section \<open>The records kept by \<open>scrapeDataFromHtml\<close>\<close>

lemma foldl_keepRow:
  "data (foldl keepRow st xs) = data st @ keepFirst (set (processedClaimNumbers st)) xs
   \<and> set (processedClaimNumbers (foldl keepRow st xs)) = set (processedClaimNumbers st) \<union> ClaimNumber ` set xs
   \<and> processedTables (foldl keepRow st xs) = processedTables st"
proof (induction xs arbitrary: st)
  case Nil
  then show ?case by simp
next
  case (Cons x xs)
  show ?case
  proof (cases "ClaimNumber x \<in> set (processedClaimNumbers st)")
    case True
    then have "keepRow st x = st" by (simp add: keepRow_def)
    then show ?thesis using Cons[of st] True by auto
  next
    case False
    then have k: "data (keepRow st x) = data st @ [x]"
      "processedClaimNumbers (keepRow st x) = ClaimNumber x # processedClaimNumbers st"
      "processedTables (keepRow st x) = processedTables st"
      by (simp_all add: keepRow_def)
    show ?thesis using Cons[of "keepRow st x"] False k by auto
  qed
qed

lemma keepFirst_append:
  "keepFirst S (xs @ ys) = keepFirst S xs @ keepFirst (S \<union> ClaimNumber ` set xs) ys"
  by (induction xs arbitrary: S) (auto simp: insert_absorb)

lemma keepFirst_fresh: "r \<in> set (keepFirst S xs) \<Longrightarrow> ClaimNumber r \<notin> S \<and> r \<in> set xs"
  by (induction xs arbitrary: S) (auto split: if_splits)

lemma keepFirst_distinct: "distinct (map ClaimNumber (keepFirst S xs))"
  by (induction xs arbitrary: S) (auto dest: keepFirst_fresh)

lemma keepFirst_numbers: "ClaimNumber ` set (keepFirst S xs) = ClaimNumber ` set xs - S"
  by (induction xs arbitrary: S) auto

lemma keepFirst_find:
  "r \<in> set (keepFirst S xs) \<Longrightarrow> find (\<lambda>x. ClaimNumber x = ClaimNumber r) xs = Some r"
proof (induction xs arbitrary: S)
  case Nil
  then show ?case by simp
next
  case (Cons x xs)
  show ?case
  proof (cases "ClaimNumber x \<in> S")
    case True
    with Cons.prems have r: "r \<in> set (keepFirst S xs)" by simp
    then have "ClaimNumber r \<notin> S" by (rule keepFirst_fresh[THEN conjunct1])
    with True have "ClaimNumber x \<noteq> ClaimNumber r" by auto
    then show ?thesis using Cons.IH[OF r] by simp
  next
    case False
    with Cons.prems consider "r = x" | "r \<in> set (keepFirst (insert (ClaimNumber x) S) xs)" by auto
    then show ?thesis
    proof cases
      case 1
      then show ?thesis by simp
    next
      case 2
      then have "ClaimNumber r \<notin> insert (ClaimNumber x) S" by (rule keepFirst_fresh[THEN conjunct1])
      then have "ClaimNumber x \<noteq> ClaimNumber r" by auto
      then show ?thesis using Cons.IH[OF 2] by simp
    qed
  qed
qed

lemma keepFirst_subseq: "subseq (keepFirst S xs) xs"
  by (induction xs arbitrary: S) auto

lemma tablesEach_data:
  "tablesEach D t title cn cd st tabs = Inr st' \<Longrightarrow> distinct (map fst tabs)
   \<Longrightarrow> fst ` set tabs \<inter> set (processedTables st) = {}
   \<Longrightarrow> data st' = data st @ keepFirst (set (processedClaimNumbers st)) (rowsOfTables D t title cn cd tabs)"
proof (induction tabs arbitrary: st)
  case Nil
  then show ?case by (simp add: rowsOfTables_def)
next
  case (Cons p tabs)
  obtain i tbl where p: "p = (i, tbl)" by (cases p) auto
  from Cons.prems(3) p have fresh: "i \<notin> set (processedTables st)" by auto
  from Cons.prems(1) p fresh obtain rows where rows: "extractData D t title tbl cn cd = Inr rows"
    by (cases "extractData D t title tbl cn cd") auto
  let ?st1 = "foldl keepRow (st\<lparr>processedTables := i # processedTables st\<rparr>) rows"
  from Cons.prems(1) p fresh rows have rest: "tablesEach D t title cn cd ?st1 tabs = Inr st'"
    by simp
  have f: "data ?st1 = data st @ keepFirst (set (processedClaimNumbers st)) rows"
    "set (processedClaimNumbers ?st1) = set (processedClaimNumbers st) \<union> ClaimNumber ` set rows"
    "processedTables ?st1 = i # processedTables st"
    using foldl_keepRow[of "st\<lparr>processedTables := i # processedTables st\<rparr>" rows] by simp_all
  from Cons.prems(2,3) p have d: "distinct (map fst tabs)"
    "fst ` set tabs \<inter> set (processedTables ?st1) = {}"
    using f(3) by (auto simp: image_iff)
  have r: "rowsOfTables D t title cn cd (p # tabs) = rows @ rowsOfTables D t title cn cd tabs"
    using p rows by (simp add: rowsOfTables_def)
  show ?case using Cons.IH[OF rest d] f r by (simp add: keepFirst_append)
qed

lemma locateTables_distinct: "distinct (map fst (locateTables t doc))"
proof -
  have "distinct (map fst (zip [0 ..< length (docTables doc)] (docTables doc)))" by simp
  then show ?thesis unfolding locateTables_def by (rule distinct_map_filter)
qed

lemma scrape_keepFirst:
  assumes "scrapeDataFromHtml D doc = Inr recs" and "identifyTemplate doc = Some t"
  shows "recs = keepFirst {} (extractedRows D t doc)"
proof (cases "locateTables t doc = []")
  case True
  then show ?thesis using assms by (simp add: scrapeDataFromHtml_def extractedRows_def Let_def rowsOfTables_def)
next
  case False
  let ?nd = "foldl (scanParagraph D) ([], []) (docParagraphs doc)"
  let ?st0 = "\<lparr>processedTables = [], processedClaimNumbers = [], data = []\<rparr>"
  from assms False obtain st' where
    st': "tablesEach D t (docTitle doc) (cleanCourtName (fst ?nd)) (snd ?nd) ?st0 (locateTables t doc) = Inr st'"
    "recs = data st'"
    by (cases "tablesEach D t (docTitle doc) (cleanCourtName (fst ?nd)) (snd ?nd) ?st0 (locateTables t doc)")
       (auto simp: scrapeDataFromHtml_def Let_def)
  from tablesEach_data[OF st'(1) locateTables_distinct] st'(2) show ?thesis
    by (simp add: extractedRows_def Let_def)
qed

section \<open>No extractor raises\<close>

lemma capCount_seps: "capCount rxV = Some 1" "capCount rxDashV = Some 1"
  by code_simp+

lemma no_empty_sep:
  "rxMatchAt rxV [] [] = None" "rxMatchAt rxDashV [] [] = None" "rxMatchAt (lit '' | '') [] [] = None"
  by code_simp+

lemma rxSplit_odd:
  "capCount r = Some 1 \<Longrightarrow> rxMatchAt r [] [] = None \<Longrightarrow> odd (length (rxSplit r s))"
  by (simp add: rxSplit_def rxSplitLoop_odd)

lemma rxSplit_nonempty: "rxMatchAt r [] [] = None \<Longrightarrow> rxSplit r s \<noteq> []"
  by (simp add: rxSplit_def rxSplitLoop_nonempty)

lemma partiesOf_odd:
  assumes "odd (length parts)"
  shows "\<exists>claimant defendant. partiesOf parts = Inr (claimant, defendant)"
proof (cases "length parts \<ge> 2")
  case True
  have "length parts \<noteq> 2" using assms by auto
  with True have "length parts > 2" by arith
  then show ?thesis by (auto simp: partiesOf_def trimOf_def)
next
  case False
  have "length parts \<noteq> 0" using assms by auto
  with False have "length parts = Suc 0" by arith
  then obtain x where "parts = [x]" by (auto simp: length_Suc_conv)
  then show ?thesis by (simp add: partiesOf_def trimOf_def)
qed

lemma splitParties5_total: "\<exists>claimant defendant. splitParties5 caseDetails = Inr (claimant, defendant)"
  unfolding splitParties5_def Let_def
  using partiesOf_odd[OF rxSplit_odd[OF capCount_seps(1) no_empty_sep(1)], of caseDetails]
        partiesOf_odd[OF rxSplit_odd[OF capCount_seps(2) no_empty_sep(2)], of caseDetails]
  by auto

lemma undefined_tests:
  "rxTest rxPossessions ''undefined'' = False" "rxTest rxLooseV ''undefined'' = False"
  "rxTest rxPossessions [] = False"
  by code_simp+

lemma splitParties7_total: "\<exists>claimant defendant. splitParties7 caseName = Inr (claimant, defendant)"
proof (cases caseName)
  case None
  then show ?thesis by (simp add: splitParties7_def jsStr_def undefined_tests)
next
  case (Some cn)
  then show ?thesis
    unfolding splitParties7_def
    using partiesOf_odd[OF rxSplit_odd[OF capCount_seps(1) no_empty_sep(1)], of cn]
    by auto
qed

lemma splitAtFirstPipe_total: "\<exists>a b. splitAtFirstPipe text = Inr (a, b)"
proof -
  have "rxSplit (lit '' | '') text \<noteq> []" by (rule rxSplit_nonempty[OF no_empty_sep(3)])
  then have "nth_opt (rxSplit (lit '' | '') text) (Some 0) = Some (hd (rxSplit (lit '' | '') text))"
    by (cases "rxSplit (lit '' | '') text") auto
  then show ?thesis by (simp add: splitAtFirstPipe_def Let_def trimOf_def)
qed

lemma possessionAt_defined:
  "possessionAt cellsText i \<Longrightarrow> \<exists>h. nth_opt cellsText (Some i) = Some h \<and> rxTest rxPossessions h \<and> h \<noteq> []"
  unfolding possessionAt_def
  by (cases "nth_opt cellsText (Some i)") (auto simp: jsStr_def undefined_tests)

lemma nth_opt_below:
  "nth_opt xs (Some i) = Some h \<Longrightarrow> 0 \<le> j \<Longrightarrow> j \<le> i \<Longrightarrow> \<exists>k. nth_opt xs (Some j) = Some k"
  by (auto split: if_splits)

lemma pickHearingType_cases:
  assumes "pickHearingType cellsText = Some ht"
  obtains i h where "i \<in> {5, 3, 6}" "ht = Some h" "nth_opt cellsText (Some i) = Some h"
    "rxTest rxPossessions h" "h \<noteq> []"
proof -
  from assms consider "possessionAt cellsText 5" "ht = nth_opt cellsText (Some 5)"
    | "possessionAt cellsText 3" "ht = nth_opt cellsText (Some 3)"
    | "possessionAt cellsText 6" "ht = nth_opt cellsText (Some 6)"
    by (auto simp: pickHearingType_def split: if_splits)
  then show ?thesis
  proof cases
    case 1
    with possessionAt_defined[OF 1(1)] that[of 5] show ?thesis by auto
  next
    case 2
    with possessionAt_defined[OF 2(1)] that[of 3] show ?thesis by auto
  next
    case 3
    with possessionAt_defined[OF 3(1)] that[of 6] show ?thesis by auto
  qed
qed


lemma orElse_simps:
  "orElse None d = d" "orElse (Some []) d = d" "s \<noteq> [] \<Longrightarrow> orElse (Some s) d = s"
  by (simp_all add: orElse_def)

lemma orElse_empty: "orElse x [] = (case x of None \<Rightarrow> [] | Some s \<Rightarrow> s)"
  by (cases x) (auto simp: orElse_def)

lemma dataRow5_dropped: "pickHearingType cellsText = None \<Longrightarrow> dataRow5 D tn cd cellsText = Inr None"
  by (simp add: dataRow5_def)

lemma caseDetails5_defined:
  assumes "pickHearingType cellsText = Some ht"
  shows "\<exists>cd. fst (snd (fieldsFor5 cellsText ht)) = Some cd"
proof -
  from assms obtain i h where ih: "i \<in> {5, 3, 6}" "ht = Some h" "nth_opt cellsText (Some i) = Some h"
    by (rule pickHearingType_cases)
  show ?thesis
  proof (cases "ht = nth_opt cellsText (Some 3)")
    case True
    with ih(2) have "nth_opt cellsText (Some 3) = Some h" by simp
    from nth_opt_below[OF this, of 2] True show ?thesis by (simp add: fieldsFor5_def)
  next
    case n3: False
    show ?thesis
    proof (cases "ht = nth_opt cellsText (Some 6)")
      case True
      with ih(2) have "nth_opt cellsText (Some 6) = Some h" by simp
      from nth_opt_below[OF this, of 5] True n3 show ?thesis by (simp add: fieldsFor5_def)
    next
      case False
      with n3 ih have "i = 5" by auto
      with ih(3) have "nth_opt cellsText (Some 5) = Some h" by simp
      from nth_opt_below[OF this, of 4] False n3 show ?thesis by (simp add: fieldsFor5_def)
    qed
  qed
qed

lemma dataRow5_total: "\<exists>res. dataRow5 D tn cd cellsText = Inr res"
proof (cases "pickHearingType cellsText")
  case None
  then show ?thesis by (simp add: dataRow5_dropped)
next
  case (Some ht)
  from caseDetails5_defined[OF Some] obtain cdt where cdt: "fst (snd (fieldsFor5 cellsText ht)) = Some cdt" by blast
  obtain c d where sp: "splitParties5 (rxReplaceFirst rxLeadingToken (\<lambda>caps. []) cdt) = Inr (c, d)"
    using splitParties5_total by blast
  show ?thesis
    unfolding dataRow5_def Let_def by (simp add: Some cdt sp)
qed

lemma notProvided_not_PCOL: "notProvided \<noteq> ''PCOL''" "notProvided \<noteq> []"
  by (simp_all add: notProvided_def)

lemma dataRow5_record:
  assumes "dataRow5 D tn cd cellsText = Inr (Some (cn, rec))"
  shows "cn = extractCourtLocation tn \<and> CourtName rec = orElse (extractCourtLocation tn) []
    \<and> ClaimNumber rec \<noteq> ''PCOL''
    \<and> (\<exists>i\<in>{5, 3, 6}. nth_opt cellsText (Some i) = Some (HearingType rec))
    \<and> rxTest rxPossessions (HearingType rec)"
proof -
  from assms obtain ht where ht: "pickHearingType cellsText = Some ht"
    by (cases "pickHearingType cellsText") (auto simp: dataRow5_def)
  from ht obtain i h where ih: "i \<in> {5, 3, 6}" "ht = Some h" "nth_opt cellsText (Some i) = Some h"
    "rxTest rxPossessions h" "h \<noteq> []"
    by (rule pickHearingType_cases)
  from caseDetails5_defined[OF ht] obtain cdt where cdt: "fst (snd (fieldsFor5 cellsText ht)) = Some cdt" by blast
  obtain c d where sp: "splitParties5 (rxReplaceFirst rxLeadingToken (\<lambda>caps. []) cdt) = Inr (c, d)"
    using splitParties5_total by blast
  let ?cn = "nth_opt (strSplit '' '' cdt) (Some 0)"
  from assms have notp: "?cn \<noteq> Some ''PCOL''"
    unfolding dataRow5_def Let_def by (auto simp: ht cdt sp split: if_splits)
  from assms notp have rec: "cn = extractCourtLocation tn"
    "CourtName rec = orElse (extractCourtLocation tn) []"
    "ClaimNumber rec = orElse ?cn notProvided"
    "HearingType rec = orElse ht notProvided"
    unfolding dataRow5_def Let_def by (auto simp: ht cdt sp split: if_splits)
  have "orElse ?cn notProvided \<noteq> ''PCOL''"
    using notp notProvided_not_PCOL by (cases ?cn) (auto simp: orElse_def)
  with rec(3) have f3: "ClaimNumber rec \<noteq> ''PCOL''" by simp
  have hh: "HearingType rec = h" using rec(4) ih(2,5) by (simp add: orElse_def)
  have f4: "\<exists>i\<in>{5, 3, 6}. nth_opt cellsText (Some i) = Some (HearingType rec)"
    unfolding hh using ih(1,3) by blast
  have f5: "rxTest rxPossessions (HearingType rec)" unfolding hh by (rule ih(4))
  from rec(1,2) f3 f4 f5 show ?thesis by blast
qed

section \<open>What the row loops produce\<close>

lemma rowsEach_total:
  assumes "\<And>st r. \<exists>st'. f st r = Inr st'"
  shows "\<exists>st'. rowsEach f st rows = Inr st'"
proof (induction rows arbitrary: st)
  case Nil
  then show ?case by simp
next
  case (Cons r rows)
  from assms[of st r] obtain st1 where "f st r = Inr st1" by blast
  with Cons[of st1] show ?case by simp
qed

lemma rowsEach_grows:
  assumes step: "\<And>st r st'. f st r = Inr st' \<Longrightarrow> \<exists>new. dataOut st' = dataOut st @ new \<and> (\<forall>x\<in>set new. Q x)"
    and run: "rowsEach f st rows = Inr st'"
  shows "\<exists>new. dataOut st' = dataOut st @ new \<and> (\<forall>x\<in>set new. Q x)"
  using run
proof (induction rows arbitrary: st)
  case Nil
  then show ?case by simp
next
  case (Cons r rows)
  from Cons.prems obtain st1 where st1: "f st r = Inr st1" "rowsEach f st1 rows = Inr st'"
    by (cases "f st r") auto
  from step[OF st1(1)] obtain new1 where n1: "dataOut st1 = dataOut st @ new1" "\<forall>x\<in>set new1. Q x"
    by blast
  from Cons.IH[OF st1(2)] obtain new2 where n2: "dataOut st' = dataOut st1 @ new2" "\<forall>x\<in>set new2. Q x"
    by blast
  from n1 n2 have "dataOut st' = dataOut st @ (new1 @ new2) \<and> (\<forall>x\<in>set (new1 @ new2). Q x)"
    by auto
  then show ?case by blast
qed

lemma rowsEach_same:
  assumes step: "\<And>s1 s2 r. sameOut s1 s2 \<Longrightarrow> rel_sum (=) sameOut (f s1 r) (f s2 r)"
    and start: "sameOut s1 s2"
  shows "rel_sum (=) sameOut (rowsEach f s1 rows) (rowsEach f s2 rows)"
  using start
proof (induction rows arbitrary: s1 s2)
  case Nil
  then show ?case by simp
next
  case (Cons r rows)
  from step[OF Cons.prems, of r] Cons.IH show ?case
    by (cases "f s1 r"; cases "f s2 r") auto
qed

lemma same_dataOut:
  "rel_sum (=) sameOut r1 r2 \<Longrightarrow> map_sum id dataOut r1 = map_sum id dataOut r2"
  by (cases r1; cases r2) (auto simp: sameOut_def)

lemma fromTitle_orElse:
  "CourtName r = orElse (extractCourtLocation tn) [] \<Longrightarrow> Title r = tn \<Longrightarrow> fromTitle tn r"
  by (simp add: fromTitle_def orElse_empty)

subsection \<open>\<open>extractDataTemplate5\<close>\<close>

lemma dataRow5_title:
  "dataRow5 D tn cd cellsText = Inr (Some (cn, rec)) \<Longrightarrow> Title rec = tn"
  unfolding dataRow5_def Let_def
  by (auto split: option.splits sum.splits if_splits)

lemma step5_total: "\<exists>st'. step5 D tn cd st cells = Inr st'"
  using dataRow5_total[of D tn cd "cellsTextOf (dataCellsOf cells)"]
  by (auto simp: step5_def Let_def split: option.splits)

lemma step5_same:
  "sameOut s1 s2 \<Longrightarrow> rel_sum (=) sameOut (step5 D tn cd s1 cells) (step5 D tn cd s2 cells)"
  by (auto simp: step5_def Let_def sameOut_def split: sum.splits option.splits)

lemma step5_grows:
  assumes "step5 D tn cd st cells = Inr st'"
  shows "\<exists>new. dataOut st' = dataOut st @ new \<and>
     (\<forall>x\<in>set new. fromTitle tn x \<and> ClaimNumber x \<noteq> ''PCOL'' \<and> rxTest rxPossessions (HearingType x))"
proof (cases "dataOut st' = dataOut st")
  case True
  then show ?thesis by simp
next
  case False
  with assms obtain cn rec where r: "dataRow5 D tn cd (cellsTextOf (dataCellsOf cells)) = Inr (Some (cn, rec))"
    "dataOut st' = dataOut st @ [rec]"
    by (auto simp: step5_def Let_def split: sum.splits option.splits if_splits)
  from dataRow5_record[OF r(1)] dataRow5_title[OF r(1)] r(2) show ?thesis
    by (auto intro: fromTitle_orElse)
qed


lemma extractDataTemplate5_total:
  "\<exists>recs. extractDataTemplate5 D title tbl cn cd = Inr recs"
proof -
  obtain st' where "rowsEach (step5 D (trim title) cd)
       \<lparr>headersIndex = noHeaders5, courtNameVar = Some cn, dataOut = []\<rparr> (tableRows tbl) = Inr st'"
    using rowsEach_total[of "step5 D (trim title) cd", OF step5_total] by blast
  then show ?thesis by (simp add: extractDataTemplate5_def)
qed

lemma extractDataTemplate5_records:
  assumes "extractDataTemplate5 D title tbl cn cd = Inr recs"
  shows "\<forall>x\<in>set recs. fromTitle (trim title) x \<and> ClaimNumber x \<noteq> ''PCOL''
           \<and> rxTest rxPossessions (HearingType x)"
proof -
  let ?st0 = "\<lparr>headersIndex = noHeaders5, courtNameVar = Some cn, dataOut = []\<rparr>"
  from assms obtain st' where st': "rowsEach (step5 D (trim title) cd) ?st0 (tableRows tbl) = Inr st'"
    "recs = dataOut st'"
    by (cases "rowsEach (step5 D (trim title) cd) ?st0 (tableRows tbl)")
       (auto simp: extractDataTemplate5_def)
  from rowsEach_grows[where f = "step5 D (trim title) cd" and Q = "\<lambda>x. fromTitle (trim title) x \<and> ClaimNumber x \<noteq> ''PCOL''
           \<and> rxTest rxPossessions (HearingType x)", OF step5_grows st'(1)] st'(2)
  show ?thesis by auto
qed

lemma extractDataTemplate5_courtName:
  "extractDataTemplate5 D title tbl cn1 cd = extractDataTemplate5 D title tbl cn2 cd"
  unfolding extractDataTemplate5_def
  by (rule same_dataOut, rule rowsEach_same, rule step5_same) (simp_all add: sameOut_def)

subsection \<open>\<open>extractDataTemplate7\<close>\<close>

lemma dataRow7_total: "\<exists>res. dataRow7 D tn cd h cellsText = Inr res"
proof -
  obtain c d where "splitParties7 (nth_opt cellsText (Some 3)) = Inr (c, d)"
    using splitParties7_total by blast
  then show ?thesis by (simp add: dataRow7_def Let_def)
qed

lemma dataRow7_record:
  "dataRow7 D tn cd h cellsText = Inr (Some (cn, rec))
   \<Longrightarrow> CourtName rec = orElse (extractCourtLocation tn) [] \<and> Title rec = tn"
  unfolding dataRow7_def Let_def
  by (auto split: option.splits sum.splits if_splits)

lemma step7_total: "\<exists>st'. step7 D tn cd st cells = Inr st'"
  using dataRow7_total[of D tn cd "headersIndex st" "cellsTextOf (dataCellsOf cells)"]
  by (auto simp: step7_def Let_def split: option.splits)

lemma step7_same:
  "sameOut s1 s2 \<Longrightarrow> rel_sum (=) sameOut (step7 D tn cd s1 cells) (step7 D tn cd s2 cells)"
  by (auto simp: step7_def Let_def sameOut_def split: sum.splits option.splits)

lemma step7_grows:
  assumes "step7 D tn cd st cells = Inr st'"
  shows "\<exists>new. dataOut st' = dataOut st @ new \<and> (\<forall>x\<in>set new. fromTitle tn x)"
proof (cases "dataOut st' = dataOut st")
  case True
  then show ?thesis by simp
next
  case False
  with assms obtain cn rec where
    r: "dataRow7 D tn cd (headersIndex st) (cellsTextOf (dataCellsOf cells)) = Inr (Some (cn, rec))"
    "dataOut st' = dataOut st @ [rec]"
    by (auto simp: step7_def Let_def split: sum.splits option.splits if_splits)
  from dataRow7_record[OF r(1)] r(2) show ?thesis
    by (auto intro: fromTitle_orElse)
qed

lemma extractDataTemplate7_total:
  "\<exists>recs. extractDataTemplate7 D title tbl cn cd = Inr recs"
proof -
  obtain st' where "rowsEach (step7 D (trim title) cd)
       \<lparr>headersIndex = noHeaders7, courtNameVar = Some cn, dataOut = []\<rparr> (tableRows tbl) = Inr st'"
    using rowsEach_total[of "step7 D (trim title) cd", OF step7_total] by blast
  then show ?thesis by (simp add: extractDataTemplate7_def)
qed

lemma extractDataTemplate7_records:
  assumes "extractDataTemplate7 D title tbl cn cd = Inr recs"
  shows "\<forall>x\<in>set recs. fromTitle (trim title) x"
proof -
  let ?st0 = "\<lparr>headersIndex = noHeaders7, courtNameVar = Some cn, dataOut = []\<rparr>"
  from assms obtain st' where st': "rowsEach (step7 D (trim title) cd) ?st0 (tableRows tbl) = Inr st'"
    "recs = dataOut st'"
    by (cases "rowsEach (step7 D (trim title) cd) ?st0 (tableRows tbl)")
       (auto simp: extractDataTemplate7_def)
  from rowsEach_grows[where f = "step7 D (trim title) cd" and Q = "fromTitle (trim title)",
      OF step7_grows st'(1)] st'(2)
  show ?thesis by auto
qed

lemma extractDataTemplate7_courtName:
  "extractDataTemplate7 D title tbl cn1 cd = extractDataTemplate7 D title tbl cn2 cd"
  unfolding extractDataTemplate7_def
  by (rule same_dataOut, rule rowsEach_same, rule step7_same) (simp_all add: sameOut_def)

subsection \<open>\<open>extractDataTemplate4a\<close>\<close>

lemma parties4a_total: "\<exists>c d. parties4a cellsText = Inr (c, d)"
proof -
  obtain a b where "splitAtFirstPipe (orElse (nth_opt cellsText (Some 2)) []) = Inr (a, b)"
    using splitAtFirstPipe_total by blast
  then show ?thesis by (simp add: parties4a_def Let_def del: nth_opt.simps)
qed

lemma dataRow4a_total: "\<exists>res. dataRow4a D tn cd cellsText = Inr res"
proof -
  obtain c d where "parties4a cellsText = Inr (c, d)" using parties4a_total by blast
  then show ?thesis by (simp add: dataRow4a_def Let_def)
qed

lemma dataRow4a_record:
  "dataRow4a D tn cd cellsText = Inr (cn, rec)
   \<Longrightarrow> CourtName rec = orElse (extractCourtLocation tn) [] \<and> Title rec = tn"
  unfolding dataRow4a_def Let_def
  by (auto split: sum.splits)

lemma step4a_total: "\<exists>st'. step4a D tn cd st cells = Inr st'"
  using dataRow4a_total[of D tn cd "cellsText4a cells"]
  by (auto simp: step4a_def Let_def)

lemma step4a_same:
  "sameOut s1 s2 \<Longrightarrow> rel_sum (=) sameOut (step4a D tn cd s1 cells) (step4a D tn cd s2 cells)"
  by (auto simp: step4a_def Let_def sameOut_def split: sum.splits)

lemma step4a_grows:
  assumes "step4a D tn cd st cells = Inr st'"
  shows "\<exists>new. dataOut st' = dataOut st @ new \<and> (\<forall>x\<in>set new. fromTitle tn x)"
proof (cases "dataOut st' = dataOut st")
  case True
  then show ?thesis by simp
next
  case False
  with assms obtain cn rec where
    r: "dataRow4a D tn cd (cellsText4a cells) = Inr (cn, rec)" "dataOut st' = dataOut st @ [rec]"
    by (auto simp: step4a_def Let_def split: sum.splits if_splits)
  from dataRow4a_record[OF r(1)] r(2) show ?thesis by (auto intro: fromTitle_orElse)
qed

lemma extractDataTemplate4a_total:
  "\<exists>recs. extractDataTemplate4a D title tbl cn cd = Inr recs"
proof -
  obtain st' where "rowsEach (step4a D (trim title) cd)
       \<lparr>headersIndex = noHeaders4a, courtNameVar = Some cn, dataOut = []\<rparr> (tableRows tbl) = Inr st'"
    using rowsEach_total[of "step4a D (trim title) cd", OF step4a_total] by blast
  then show ?thesis by (simp add: extractDataTemplate4a_def)
qed

lemma extractDataTemplate4a_records:
  assumes "extractDataTemplate4a D title tbl cn cd = Inr recs"
  shows "\<forall>x\<in>set recs. fromTitle (trim title) x"
proof -
  let ?st0 = "\<lparr>headersIndex = noHeaders4a, courtNameVar = Some cn, dataOut = []\<rparr>"
  from assms obtain st' where st': "rowsEach (step4a D (trim title) cd) ?st0 (tableRows tbl) = Inr st'"
    "recs = dataOut st'"
    by (cases "rowsEach (step4a D (trim title) cd) ?st0 (tableRows tbl)")
       (auto simp: extractDataTemplate4a_def)
  from rowsEach_grows[where f = "step4a D (trim title) cd" and Q = "fromTitle (trim title)",
      OF step4a_grows st'(1)] st'(2)
  show ?thesis by auto
qed

lemma extractDataTemplate4a_courtName:
  "extractDataTemplate4a D title tbl cn1 cd = extractDataTemplate4a D title tbl cn2 cd"
  unfolding extractDataTemplate4a_def
  by (rule same_dataOut, rule rowsEach_same, rule step4a_same) (simp_all add: sameOut_def)

subsection \<open>\<open>extractDataTemplate4\<close>\<close>

lemma step4_same: "sameOut s1 s2 \<Longrightarrow> sameOut (step4 D tn cd s1 cells) (step4 D tn cd s2 cells)"
  by (auto simp: step4_def Let_def sameOut_def)

lemma step4_grows:
  "\<exists>new. dataOut (step4 D tn cd st cells) = dataOut st @ new \<and> (\<forall>x\<in>set new. fromTitle tn x)"
  by (auto simp: step4_def Let_def intro: fromTitle_orElse)

lemma foldl_step4_same:
  "sameOut s1 s2 \<Longrightarrow> sameOut (foldl (step4 D tn cd) s1 rows) (foldl (step4 D tn cd) s2 rows)"
  by (induction rows arbitrary: s1 s2) (auto intro: step4_same)

lemma foldl_step4_grows:
  "\<exists>new. dataOut (foldl (step4 D tn cd) st rows) = dataOut st @ new \<and> (\<forall>x\<in>set new. fromTitle tn x)"
proof (induction rows arbitrary: st)
  case Nil
  then show ?case by simp
next
  case (Cons r rows)
  from step4_grows[of D tn cd st r] obtain new1 where
    n1: "dataOut (step4 D tn cd st r) = dataOut st @ new1" "\<forall>x\<in>set new1. fromTitle tn x" by blast
  from Cons[of "step4 D tn cd st r"] obtain new2 where
    n2: "dataOut (foldl (step4 D tn cd) (step4 D tn cd st r) rows) = dataOut (step4 D tn cd st r) @ new2"
    "\<forall>x\<in>set new2. fromTitle tn x" by blast
  from n1 n2 have "dataOut (foldl (step4 D tn cd) st (r # rows)) = dataOut st @ (new1 @ new2)
    \<and> (\<forall>x\<in>set (new1 @ new2). fromTitle tn x)" by auto
  then show ?case by blast
qed

lemma extractDataTemplate4_records:
  "\<forall>x\<in>set (extractDataTemplate4 D title tbl cn cd). fromTitle (trim title) x"
  using foldl_step4_grows[of D "trim title" cd
      "\<lparr>headersIndex = noHeaders4, courtNameVar = Some cn, dataOut = []\<rparr>" "tableRows tbl"]
  by (auto simp: extractDataTemplate4_def)

lemma extractDataTemplate4_courtName:
  "extractDataTemplate4 D title tbl cn1 cd = extractDataTemplate4 D title tbl cn2 cd"
  using foldl_step4_same[of "\<lparr>headersIndex = noHeaders4, courtNameVar = Some cn1, dataOut = []\<rparr>"
      "\<lparr>headersIndex = noHeaders4, courtNameVar = Some cn2, dataOut = []\<rparr>" D "trim title" cd "tableRows tbl"]
  by (simp add: extractDataTemplate4_def sameOut_def)

section \<open>The whole document\<close>

lemma extractData_total: "\<exists>recs. extractData D t title tbl cn cd = Inr recs"
  using extractDataTemplate4a_total[of D title tbl cn cd] extractDataTemplate5_total[of D title tbl cn cd]
    extractDataTemplate7_total[of D title tbl cn cd]
  by (cases t) (auto simp: extractData_def)

lemma tablesEach_total: "\<exists>st'. tablesEach D t title cn cd st tabs = Inr st'"
proof (induction tabs arbitrary: st)
  case Nil
  then show ?case by simp
next
  case (Cons p tabs)
  obtain i tbl where p: "p = (i, tbl)" by (cases p) auto
  obtain recs where r: "extractData D t title tbl cn cd = Inr recs" using extractData_total by blast
  show ?case using Cons[of st]
      Cons[of "foldl keepRow (st\<lparr>processedTables := i # processedTables st\<rparr>) recs"] p r
    by simp
qed

lemma scrape_total: "\<exists>recs. scrapeDataFromHtml D doc = Inr recs"
proof (cases "identifyTemplate doc")
  case None
  then show ?thesis by (simp add: scrapeDataFromHtml_def)
next
  case (Some t)
  let ?nd = "foldl (scanParagraph D) ([], []) (docParagraphs doc)"
  obtain st' where "tablesEach D t (docTitle doc) (cleanCourtName (fst ?nd)) (snd ?nd)
      \<lparr>processedTables = [], processedClaimNumbers = [], data = []\<rparr> (locateTables t doc) = Inr st'"
    using tablesEach_total by blast
  then show ?thesis using Some by (simp add: scrapeDataFromHtml_def Let_def)
qed

lemma locateTables_none:
  "(\<forall>tbl\<in>set (docTables doc). \<not> tableFilter t tbl) \<Longrightarrow> locateTables t doc = []"
  unfolding locateTables_def by (auto simp: filter_empty_conv dest: set_zip_rightD)

lemma rowsOfTables_member:
  assumes "r \<in> set (rowsOfTables D t title cn cd tabs)"
  shows "\<exists>tbl recs. extractData D t title tbl cn cd = Inr recs \<and> r \<in> set recs"
  using assms unfolding rowsOfTables_def by (auto split: sum.splits) metis

lemma scrape_member:
  assumes "scrapeDataFromHtml D doc = Inr recs" and "identifyTemplate doc = Some t" and "r \<in> set recs"
  shows "\<exists>tbl cn cd recs'. extractData D t (docTitle doc) tbl cn cd = Inr recs' \<and> r \<in> set recs'"
proof -
  from scrape_keepFirst[OF assms(1,2)] assms(3) have "r \<in> set (extractedRows D t doc)"
    using keepFirst_fresh by blast
  then show ?thesis unfolding extractedRows_def Let_def using rowsOfTables_member by blast
qed


lemma scrape5_records:
  assumes "identifyTemplate doc = Some template5" and "scrapeDataFromHtml D doc = Inr recs"
  shows "\<forall>r\<in>set recs. fromTitle (trim (docTitle doc)) r \<and> ClaimNumber r \<noteq> ''PCOL''
           \<and> rxTest rxPossessions (HearingType r)"
proof
  fix r assume "r \<in> set recs"
  from scrape_member[OF assms(2,1) this] obtain tbl cn cd recs' where
    e: "extractData D template5 (docTitle doc) tbl cn cd = Inr recs'" "r \<in> set recs'" by blast
  from e(1) have "extractDataTemplate5 D (docTitle doc) tbl cn cd = Inr recs'"
    by (simp add: extractData_def)
  from extractDataTemplate5_records[OF this] e(2)
  show "fromTitle (trim (docTitle doc)) r \<and> ClaimNumber r \<noteq> ''PCOL''
           \<and> rxTest rxPossessions (HearingType r)" by blast
qed

lemma step5_dropped:
  assumes "dataRow5 D tn cd (cellsTextOf (dataCellsOf cells)) = Inr None"
  shows "\<exists>st'. step5 D tn cd st cells = Inr st' \<and> dataOut st' = dataOut st"
  using assms by (auto simp: step5_def Let_def)

section \<open>The column mapper of \<open>extractDataTemplate4a\<close>\<close>












lemma claimant_index_saturates:
  "fst (foldl mapHeader4a (noHeaders4a, Num 0) [hugeSpanCell, wideCell])
     = noHeaders4a\<lparr>h4a_claimNumber := Some (Num 9007199254740992),
                   h4a_claimant := Some (Num 9007199254740992),
                   h4a_time := Some (Num 0)\<rparr>"
  by code_simp

lemma parseInt_rounds:
  "parseInt ''9007199254740993'' = Num 9007199254740992
   \<and> parseInt '' -12px'' = Num (- 12)
   \<and> parseInt ''0x10'' = Num 16
   \<and> parseInt ''px'' = NaN"
  by code_simp

section \<open>Splitting at the first pipe\<close>

lemma m_lit:
  "m (lit w) (b, s, cs) = (if prefix w s then [(rev w @ b, drop (length w) s, cs)] else [])"
proof (induction w arbitrary: b s)
  case Nil
  then show ?case by (simp add: lit_def m.simps(4))
next
  case (Cons c w)
  have l: "lit (c # w) = Seq (Lit c) (lit w)" by (simp add: lit_def)
  show ?case
  proof (cases s)
    case Nil
    then show ?thesis by (simp add: l m.simps(5) m.simps(1))
  next
    case (Cons x xs)
    then show ?thesis using Cons.IH[of "x # b" xs]
      by (auto simp: l m.simps(5) m.simps(1))
  qed
qed

lemma rxMatchAt_lit:
  "rxMatchAt (lit w) b s = (if prefix w s then Some (rev w @ b, drop (length w) s, []) else None)"
  by (simp add: rxMatchAt_def m_lit)

lemma strJoin_Cons: "rest \<noteq> [] \<Longrightarrow> strJoin sep (x # rest) = x @ sep @ strJoin sep rest"
  by (cases rest) (auto simp: strJoin_def)

lemma join_split:
  "sep \<noteq> [] \<Longrightarrow> strJoin sep (rxSplitLoop (lit sep) piece b s) = rev piece @ s"
proof (induction "lit sep" piece b s rule: rxSplitLoop.induct)
  case (1 piece b)
  then show ?case by (simp add: strJoin_def)
next
  case (2 piece b c cs)
  show ?case
  proof (cases "prefix sep (c # cs)")
    case True
    then obtain s' where s': "c # cs = sep @ s'" by (auto simp: prefix_def)
    have mt: "rxMatchAt (lit sep) b (c # cs) = Some (rev sep @ b, s', [])"
      using True s' by (simp add: rxMatchAt_lit)
    have sh: "length s' < length (c # cs)" using s' "2.prems"
      by (metis length_append length_greater_0_conv less_add_same_cancel2)
    have ih: "strJoin sep (rxSplitLoop (lit sep) [] (rev sep @ b) s') = s'"
      using "2.hyps"(2)[OF mt refl refl sh "2.prems"] by simp
    have "rxSplitLoop (lit sep) piece b (c # cs)
      = rev piece # rxSplitLoop (lit sep) [] (rev sep @ b) s'"
      using mt sh by simp
    then show ?thesis using ih s' by (simp add: strJoin_Cons rxSplitLoop_nonempty)
  next
    case False
    then have mt: "rxMatchAt (lit sep) b (c # cs) = None" by (simp add: rxMatchAt_lit)
    then show ?thesis using "2.hyps"(1)[OF mt "2.prems"] by simp
  qed
qed

lemma firstCut_eq: "sep \<noteq> [] \<Longrightarrow> firstCut sep s = Some (x, y) \<Longrightarrow> s = x @ sep @ y"
proof (induction s arbitrary: x)
  case Nil
  then show ?case by simp
next
  case (Cons c cs)
  show ?case
  proof (cases "prefix sep (c # cs)")
    case True
    with Cons.prems show ?thesis by (auto simp: prefix_def)
  next
    case False
    with Cons.prems obtain x' where "firstCut sep cs = Some (x', y)" "x = c # x'" by auto
    with Cons.IH[OF Cons.prems(1), of x'] show ?thesis by simp
  qed
qed

lemma split_cut:
  "sep \<noteq> [] \<Longrightarrow>
   hd (rxSplitLoop (lit sep) piece b s)
     = rev piece @ (case firstCut sep s of None \<Rightarrow> s | Some (x, y) \<Rightarrow> x)
   \<and> strJoin sep (tl (rxSplitLoop (lit sep) piece b s))
     = (case firstCut sep s of None \<Rightarrow> [] | Some (x, y) \<Rightarrow> y)"
proof (induction "lit sep" piece b s rule: rxSplitLoop.induct)
  case (1 piece b)
  then show ?case by (simp add: strJoin_def)
next
  case (2 piece b c cs)
  show ?case
  proof (cases "prefix sep (c # cs)")
    case True
    then obtain s' where s': "c # cs = sep @ s'" by (auto simp: prefix_def)
    have mt: "rxMatchAt (lit sep) b (c # cs) = Some (rev sep @ b, s', [])"
      using True s' by (simp add: rxMatchAt_lit)
    have sh: "length s' < length (c # cs)" using s' "2.prems"
      by (metis length_append length_greater_0_conv less_add_same_cancel2)
    have "rxSplitLoop (lit sep) piece b (c # cs)
      = rev piece # rxSplitLoop (lit sep) [] (rev sep @ b) s'"
      using mt sh by simp
    moreover have "firstCut sep (c # cs) = Some ([], s')" using True s'
      by (metis append_eq_conv_conj firstCut.simps(2))
    ultimately show ?thesis using join_split[OF "2.prems", of "[]" "rev sep @ b" s'] by simp
  next
    case False
    then have mt: "rxMatchAt (lit sep) b (c # cs) = None" by (simp add: rxMatchAt_lit)
    show ?thesis using "2.hyps"(1)[OF mt "2.prems"] mt False
      by (auto split: option.splits)
  qed
qed

lemma firstCut_none_before:
  "sep \<noteq> [] \<Longrightarrow> firstCut sep s = Some (x, y) \<Longrightarrow> firstCut sep x = None"
proof (induction s arbitrary: x)
  case Nil
  then show ?case by simp
next
  case (Cons c cs)
  show ?case
  proof (cases "prefix sep (c # cs)")
    case True
    with Cons.prems show ?thesis by auto
  next
    case False
    with Cons.prems obtain x' where x': "firstCut sep cs = Some (x', y)" "x = c # x'" by auto
    from firstCut_eq[OF Cons.prems(1) x'(1)] have cs: "cs = x' @ sep @ y" .
    have "\<not> prefix sep (c # x')"
    proof
      assume "prefix sep (c # x')"
      then have "prefix sep (c # x' @ sep @ y)" by (metis append_Cons prefix_prefix)
      with False cs show False by simp
    qed
    with Cons.IH[OF Cons.prems(1) x'(1)] x'(2) show ?thesis by simp
  qed
qed

lemma firstCut_occurrence: "sep \<noteq> [] \<Longrightarrow> firstCut sep (l @ sep @ r) \<noteq> None"
proof (induction l)
  case Nil
  have p: "prefix sep (sep @ r)" by simp
  obtain a list where "sep @ r = a # list" using Nil by (cases "sep @ r") auto
  with p show ?case by simp
next
  case (Cons a l)
  then show ?case by auto
qed

lemma trim_infix: "\<exists>l r. s = l @ trim s @ r"
proof -
  let ?t = "dropWhile isSpace s"
  have 1: "s = takeWhile isSpace s @ ?t" by simp
  have "rev ?t = takeWhile isSpace (rev ?t) @ dropWhile isSpace (rev ?t)" by simp
  then have "?t = rev (dropWhile isSpace (rev ?t)) @ rev (takeWhile isSpace (rev ?t))"
    by (metis rev_append rev_rev_ident)
  then have "?t = trim s @ rev (takeWhile isSpace (rev ?t))" by (simp add: trim_def)
  with 1 have "s = takeWhile isSpace s @ trim s @ rev (takeWhile isSpace (rev ?t))" by simp
  then show ?thesis by blast
qed

lemma no_cut_not_phoenix:
  assumes "firstCut '' | '' x = None"
  shows "trim x \<noteq> phoenix"
proof
  assume p: "trim x = phoenix"
  obtain l r where "x = l @ trim x @ r" using trim_infix by blast
  with p have "x = (l @ ''Phoenix  Community  Housing'') @ '' | '' @ (''Association | (Bellingham & | Downham) | Limited'' @ r)"
    by (simp add: phoenix_def)
  then have "firstCut '' | '' x \<noteq> None" by (metis firstCut_occurrence list.distinct(1))
  with assms show False by simp
qed

lemma splitAtFirstPipe_cut:
  "splitAtFirstPipe str
     = Inr (case firstCut '' | '' str of None \<Rightarrow> (trim str, []) | Some (x, y) \<Rightarrow> (trim x, trim y))"
proof (cases "str")
  case Nil
  have "rxSplit (lit '' | '') [] = [[]]" by (simp add: rxSplit_def no_empty_sep)
  then show ?thesis using Nil by (simp add: splitAtFirstPipe_def Let_def trimOf_def strJoin_def trim_def)
next
  case (Cons c cs)
  let ?parts = "rxSplitLoop (lit '' | '') [] [] str"
  have p: "rxSplit (lit '' | '') str = ?parts" using Cons by (simp add: rxSplit_def)
  have ne: "?parts \<noteq> []" by (rule rxSplitLoop_nonempty)
  then have n0: "nth_opt ?parts (Some 0) = Some (hd ?parts)" by (cases ?parts) auto
  have d: "drop 1 ?parts = tl ?parts" by (simp add: drop_Suc)
  have sepne: "'' | '' \<noteq> []" by simp
  have sc: "hd ?parts = (case firstCut '' | '' str of None \<Rightarrow> str | Some (x, y) \<Rightarrow> x)"
    "strJoin '' | '' (tl ?parts) = (case firstCut '' | '' str of None \<Rightarrow> [] | Some (x, y) \<Rightarrow> y)"
    using split_cut[OF sepne, of "[]" "[]" str] by simp_all
  show ?thesis
    unfolding splitAtFirstPipe_def Let_def p n0 d trimOf_def
    by (simp add: sc trim_def split: option.splits)
qed


lemma orElse_Some: "orElse (Some s) d = (if s = [] then d else s)"
  by (simp add: orElse_def)

lemma parties4a_three:
  assumes "length cellsText = 3"
  shows "parties4a cellsText
     = Inr (case firstCut '' | '' (cellsText ! 2) of
              None \<Rightarrow> (orElse (Some (trim (cellsText ! 2))) notProvided, notProvided)
            | Some (x, y) \<Rightarrow> (orElse (Some (trim x)) notProvided, orElse (Some (trim y)) notProvided))"
proof -
  have n2: "nth_opt cellsText (Some 2) = Some (cellsText ! 2)" using assms by simp
  have third: "orElse (Some (cellsText ! 2)) [] = cellsText ! 2" by (simp add: orElse_def)
  have sepne: "'' | '' \<noteq> []" by simp
  show ?thesis
  proof (cases "firstCut '' | '' (cellsText ! 2)")
    case None
    then have "trim (cellsText ! 2) \<noteq> phoenix" by (rule no_cut_not_phoenix)
    then show ?thesis
      unfolding parties4a_def n2 third splitAtFirstPipe_cut
      using assms None by (simp add: Let_def orElse_Some)
  next
    case (Some xy)
    obtain x y where xy: "xy = (x, y)" by (cases xy) auto
    from firstCut_none_before[OF sepne Some[unfolded xy]] have "trim x \<noteq> phoenix"
      by (rule no_cut_not_phoenix)
    then show ?thesis
      unfolding parties4a_def n2 third splitAtFirstPipe_cut
      using assms Some xy by (simp add: Let_def orElse_Some)
  qed
qed

lemma parties4a_four:
  assumes "length cellsText = 4"
  shows "parties4a cellsText
     = Inr (stripPipes (orElse (Some (cellsText ! 2)) notProvided),
            stripPipes (orElse (Some (cellsText ! 3)) notProvided))"
  using assms by (simp add: parties4a_def)

lemma parties4a_other:
  assumes "length cellsText \<noteq> 3"
  shows "parties4a cellsText
     = Inr (stripPipes (orNotProvided (cellAt cellsText 2)),
            stripPipes (orNotProvided (cellAt cellsText 3)))"
  using assms by (simp add: parties4a_def orElse_def cellAt_def orNotProvided_def notProvided_def)

lemma dataRow4a_fields:
  assumes "parties4a cellsText = Inr (c, d)"
  shows "\<exists>cn rec. dataRow4a D tn cd cellsText = Inr (cn, rec) \<and> Claimant rec = c \<and> Defendant rec = d
     \<and> ClaimNumber rec = orElse (nth_opt cellsText (Some 1)) [] \<and> Duration rec = notProvided"
  using assms by (simp add: dataRow4a_def Let_def del: nth_opt.simps)

lemma dataRow4a_eq:
  assumes "parties4a cellsText = Inr (c, d)"
  shows "dataRow4a D tn cd cellsText
     = Inr (extractCourtLocation tn,
            \<lparr>CourtName = (case extractCourtLocation tn of None \<Rightarrow> [] | Some location \<Rightarrow> location),
             CourtDate = formatCourtDate4 D cd,
             ClaimNumber = cellAt cellsText 1,
             Claimant = c,
             Defendant = d,
             Duration = ''Not Provided'',
             HearingType = ''Not Provided'',
             HearingChannel = ''Not Provided'',
             Title = tn\<rparr>)"
  using assms
  by (simp add: dataRow4a_def Let_def cellAt_def orElse_empty notProvided_def)

lemma step4a_data_row:
  assumes "dataRowOf st cells" and "dataRow4a D tn cd (cellsText4a cells) = Inr (cn, rec)"
  shows "step4a D tn cd st cells = Inr (st\<lparr>courtNameVar := cn, dataOut := dataOut st @ [rec]\<rparr>)"
proof -
  from assms(1) have 1: "\<not> list_ex (\<lambda>text. rxTest rxClaimNumberClaimant (normalizeText text)) (cellsText4a cells)"
    and 2: "1 < length (cellsText4a cells)" and 3: "hasKeys4a (headersIndex st)"
    and 4: "\<not> list_all (\<lambda>text. text = []) (cellsText4a cells)"
    by (auto simp: dataRowOf_def cellsText4a_def list_ex_iff list_all_iff)
  show ?thesis using 1 2 3 4 assms(2) by (simp add: step4a_def Let_def)
qed

section \<open>The sentinel claim number outside \<open>extractDataTemplate5\<close>\<close>

lemma template4_keeps_PCOL:
  "map ClaimNumber (extractDataTemplate4 sampleDates ''T'' oneRowTable4 [] []) = [''PCOL'']"
  by code_simp

lemma template4a_keeps_PCOL:
  "map_sum id (map ClaimNumber) (extractDataTemplate4a sampleDates ''T'' pcolTable4a [] [])
     = Inr [''PCOL'']"
  by code_simp

section \<open>The claims\<close>

text \<open>
  C5.  On the input \<open>15th November 2024\<close>, which has no comma, the copy of
  \<open>formatCourtDate\<close> in \<open>extractDataTemplate4\<close> (and its identical copies in
  \<open>extractDataTemplate4a\<close> and \<open>extractDataTemplate7\<close>) returns the empty string, whatever
  the runtime makes of the date: the branch for a string without a comma, which the copy
  in \<open>extractDataTemplate5\<close> has, is missing.  The claim asks for \<open>15/11/2024\<close>.
\<close>

theorem formatCourtDate4_comma_free_empty:
  "formatCourtDate4 D ''15th November 2024'' = []"
  by (simp only: formatCourtDate4_def comma_free_november if_False)

text \<open>
  C2.  Whenever \<open>scrapeDataFromHtml\<close> returns for a document of a recognised template,
  the records returned carry pairwise different claim numbers, these are exactly the
  claim numbers of the rows extracted from the tables of the document, each record
  returned is the first extracted row with its claim number, and the records returned
  stand in the order in which they were extracted.
\<close>

theorem scrape_first_wins:
  assumes "scrapeDataFromHtml D doc = Inr recs" and "identifyTemplate doc = Some t"
  shows "distinct (map ClaimNumber recs)
    \<and> ClaimNumber ` set recs = ClaimNumber ` set (extractedRows D t doc)
    \<and> (\<forall>r\<in>set recs. find (\<lambda>x. ClaimNumber x = ClaimNumber r) (extractedRows D t doc) = Some r)
    \<and> subseq recs (extractedRows D t doc)"
  using scrape_keepFirst[OF assms] keepFirst_distinct keepFirst_numbers[of "{}"] keepFirst_find
    keepFirst_subseq
  by auto

theorem scrape_first_wins_witness:
  "scrapeDataFromHtml sampleDates dupDoc
     = Inr [sampleRecord ''A1'' ''X'' ''Y'', sampleRecord ''A2'' ''P'' ''Q'']
   \<and> identifyTemplate dupDoc = Some template4a
   \<and> extractedRows sampleDates template4a dupDoc
     = [sampleRecord ''A1'' ''X'' ''Y'', sampleRecord ''A2'' ''P'' ''Q'', sampleRecord ''A1'' ''R'' ''S'']
   \<and> subseq [sampleRecord ''A1'' ''X'' ''Y'', sampleRecord ''A2'' ''P'' ''Q'']
        (extractedRows sampleDates template4a dupDoc)
   \<and> find (\<lambda>x. ClaimNumber x = ''A1'') (extractedRows sampleDates template4a dupDoc)
     = Some (sampleRecord ''A1'' ''X'' ''Y'')"
proof -
  have h1: "scrapeDataFromHtml sampleDates dupDoc
     = Inr [sampleRecord ''A1'' ''X'' ''Y'', sampleRecord ''A2'' ''P'' ''Q'']"
    by code_simp
  have h2: "identifyTemplate dupDoc = Some template4a"
    by code_simp
  have h3: "extractedRows sampleDates template4a dupDoc
     = [sampleRecord ''A1'' ''X'' ''Y'', sampleRecord ''A2'' ''P'' ''Q'', sampleRecord ''A1'' ''R'' ''S'']"
    by code_simp
  have n: "ClaimNumber (sampleRecord ''A1'' ''X'' ''Y'') = ''A1''"
    by (simp add: sampleRecord_def)
  from scrape_first_wins[OF h1 h2] n have
    "subseq [sampleRecord ''A1'' ''X'' ''Y'', sampleRecord ''A2'' ''P'' ''Q'']
        (extractedRows sampleDates template4a dupDoc)"
    "find (\<lambda>x. ClaimNumber x = ''A1'') (extractedRows sampleDates template4a dupDoc)
     = Some (sampleRecord ''A1'' ''X'' ''Y'')"
    by auto
  with h1 h2 h3 show ?thesis by simp
qed

text \<open>
  C1.  The row extractor of the possession schedule (\<open>extractDataTemplate5\<close>) always
  returns, and the hearing type of every record it returns contains the token
  \<open>possession\<close>, in any case.  A row none of whose cells at the probed positions 5, 3 and
  6 contains the token adds no record.  The same holds of the records that
  \<open>scrapeDataFromHtml\<close> returns for a document classified as \<open>template5\<close>.
\<close>

theorem template5_only_possession:
  "(\<exists>recs. extractDataTemplate5 D title tbl courtName courtDate = Inr recs
          \<and> (\<forall>r\<in>set recs. containsCI ''possession'' (HearingType r)))
   \<and> ((\<forall>i\<in>{5, 3, 6}. \<forall>h. nth_opt (cellsTextOf (dataCellsOf cells)) (Some i) = Some h
                          \<longrightarrow> \<not> containsCI ''possession'' h)
      \<longrightarrow> (\<exists>st'. step5 D titlename courtDate st cells = Inr st' \<and> dataOut st' = dataOut st))
   \<and> (identifyTemplate doc = Some template5
      \<longrightarrow> (\<exists>recs. scrapeDataFromHtml D doc = Inr recs
                 \<and> (\<forall>r\<in>set recs. containsCI ''possession'' (HearingType r))))"
proof (intro conjI impI)
  obtain recs where r: "extractDataTemplate5 D title tbl courtName courtDate = Inr recs"
    using extractDataTemplate5_total by blast
  from extractDataTemplate5_records[OF r] have "\<forall>r\<in>set recs. containsCI ''possession'' (HearingType r)"
    by (auto intro: rxPossessions_sound)
  with r show "\<exists>recs. extractDataTemplate5 D title tbl courtName courtDate = Inr recs
          \<and> (\<forall>r\<in>set recs. containsCI ''possession'' (HearingType r))" by blast
next
  let ?cellsText = "cellsTextOf (dataCellsOf cells)"
  assume no: "\<forall>i\<in>{5, 3, 6}. \<forall>h. nth_opt ?cellsText (Some i) = Some h
                 \<longrightarrow> \<not> containsCI ''possession'' h"
  have "\<not> possessionAt ?cellsText i" if "i \<in> {5, 3, 6}" for i
  proof
    assume "possessionAt ?cellsText i"
    from possessionAt_defined[OF this] obtain h where
      "nth_opt ?cellsText (Some i) = Some h" "rxTest rxPossessions h" by blast
    with no that rxPossessions_sound show False by blast
  qed
  then have "pickHearingType ?cellsText = None" by (simp add: pickHearingType_def)
  then have "dataRow5 D titlename courtDate ?cellsText = Inr None" by (rule dataRow5_dropped)
  then show "\<exists>st'. step5 D titlename courtDate st cells = Inr st' \<and> dataOut st' = dataOut st"
    by (rule step5_dropped)
next
  assume t: "identifyTemplate doc = Some template5"
  obtain recs where r: "scrapeDataFromHtml D doc = Inr recs" using scrape_total by blast
  from scrape5_records[OF t r] have "\<forall>r\<in>set recs. containsCI ''possession'' (HearingType r)"
    by (auto intro: rxPossessions_sound)
  with r show "\<exists>recs. scrapeDataFromHtml D doc = Inr recs
                 \<and> (\<forall>r\<in>set recs. containsCI ''possession'' (HearingType r))" by blast
qed

theorem template5_only_possession_witness:
  "map_sum id (map HearingType) (extractDataTemplate5 sampleDates ''T'' possessionTable5 [] [])
     = Inr [''Possession'']
   \<and> containsCI ''possession'' ''Possession''
   \<and> cellsTextOf (dataCellsOf (map plainCell [''9'', ''1h'', ''A2 P v Q'', ''Trial'', ''Room'']))
     = [''9'', ''1h'', ''A2 P v Q'', ''Trial'', ''Room'']
   \<and> \<not> containsCI ''possession'' ''Trial''
   \<and> (\<exists>st'. step5 sampleDates ''T'' []
               \<lparr>headersIndex = noHeaders5\<lparr>h5startTime := Some (Num 0)\<rparr>, courtNameVar = None, dataOut = []\<rparr>
               (map plainCell [''9'', ''1h'', ''A2 P v Q'', ''Trial'', ''Room'']) = Inr st'
             \<and> dataOut st' = [])
   \<and> identifyTemplate possessionDoc5 = Some template5
   \<and> map_sum id (map HearingType) (scrapeDataFromHtml sampleDates possessionDoc5) = Inr [''Possession'']"
proof -
  let ?cells = "map plainCell [''9'', ''1h'', ''A2 P v Q'', ''Trial'', ''Room'']"
  let ?st = "\<lparr>headersIndex = noHeaders5\<lparr>h5startTime := Some (Num 0)\<rparr>, courtNameVar = None, dataOut = []\<rparr>"
  have e1: "map_sum id (map HearingType) (extractDataTemplate5 sampleDates ''T'' possessionTable5 [] [])
     = Inr [''Possession'']" by code_simp
  have e2: "containsCI ''possession'' ''Possession''" by code_simp
  have e3: "cellsTextOf (dataCellsOf ?cells) = [''9'', ''1h'', ''A2 P v Q'', ''Trial'', ''Room'']"
    by code_simp
  have e4: "\<not> containsCI ''possession'' ''Trial''" by code_simp
  have e5: "identifyTemplate possessionDoc5 = Some template5" by code_simp
  have e6: "map_sum id (map HearingType) (scrapeDataFromHtml sampleDates possessionDoc5) = Inr [''Possession'']"
    by code_simp
  have hyp: "\<forall>i\<in>{5, 3, 6}. \<forall>h. nth_opt (cellsTextOf (dataCellsOf ?cells)) (Some i) = Some h
                 \<longrightarrow> \<not> containsCI ''possession'' h"
    unfolding e3 using e4 by simp
  from template5_only_possession[of sampleDates "''T''" possessionTable5 "[]" "[]" ?cells "''T''" ?st
      possessionDoc5] hyp
  have "\<exists>st'. step5 sampleDates ''T'' [] ?st ?cells = Inr st' \<and> dataOut st' = dataOut ?st"
    by blast
  then have "\<exists>st'. step5 sampleDates ''T'' [] ?st ?cells = Inr st' \<and> dataOut st' = []"
    by simp
  with e1 e2 e3 e4 e5 e6 show ?thesis by blast
qed

text \<open>
  C7, as the code has it.  A record returned by \<open>extractDataTemplate5\<close> never has the
  claim number \<open>PCOL\<close>: a row whose case details start with the token \<open>PCOL\<close> adds no
  record.  The same holds of the records that \<open>scrapeDataFromHtml\<close> returns for a
  document classified as \<open>template5\<close>.  The other extractors do not look for the sentinel.
\<close>

theorem template5_never_PCOL:
  "(\<exists>recs. extractDataTemplate5 D title tbl courtName courtDate = Inr recs
          \<and> (\<forall>r\<in>set recs. ClaimNumber r \<noteq> ''PCOL''))
   \<and> (pickHearingType (cellsTextOf (dataCellsOf cells)) = Some hearingType
       \<and> fst (snd (fieldsFor5 (cellsTextOf (dataCellsOf cells)) hearingType)) = Some caseDetails
       \<and> nth_opt (strSplit '' '' caseDetails) (Some 0) = Some ''PCOL''
      \<longrightarrow> (\<exists>st'. step5 D titlename courtDate st cells = Inr st' \<and> dataOut st' = dataOut st))
   \<and> (identifyTemplate doc = Some template5
      \<longrightarrow> (\<exists>recs. scrapeDataFromHtml D doc = Inr recs \<and> (\<forall>r\<in>set recs. ClaimNumber r \<noteq> ''PCOL'')))"
proof (intro conjI impI)
  obtain recs where r: "extractDataTemplate5 D title tbl courtName courtDate = Inr recs"
    using extractDataTemplate5_total by blast
  from extractDataTemplate5_records[OF r] r
  show "\<exists>recs. extractDataTemplate5 D title tbl courtName courtDate = Inr recs
          \<and> (\<forall>r\<in>set recs. ClaimNumber r \<noteq> ''PCOL'')" by blast
next
  let ?cellsText = "cellsTextOf (dataCellsOf cells)"
  assume "pickHearingType ?cellsText = Some hearingType
       \<and> fst (snd (fieldsFor5 ?cellsText hearingType)) = Some caseDetails
       \<and> nth_opt (strSplit '' '' caseDetails) (Some 0) = Some ''PCOL''"
  then have "dataRow5 D titlename courtDate ?cellsText = Inr None"
    by (simp add: dataRow5_def Let_def del: nth_opt.simps)
  then show "\<exists>st'. step5 D titlename courtDate st cells = Inr st' \<and> dataOut st' = dataOut st"
    by (rule step5_dropped)
next
  assume t: "identifyTemplate doc = Some template5"
  obtain recs where r: "scrapeDataFromHtml D doc = Inr recs" using scrape_total by blast
  from scrape5_records[OF t r] r
  show "\<exists>recs. scrapeDataFromHtml D doc = Inr recs \<and> (\<forall>r\<in>set recs. ClaimNumber r \<noteq> ''PCOL'')"
    by blast
qed

theorem template5_never_PCOL_witness:
  "map_sum id (map ClaimNumber) (extractDataTemplate5 sampleDates ''T'' possessionTable5 [] [])
     = Inr [''A1'']
   \<and> pickHearingType (cellsTextOf (dataCellsOf
        (map plainCell [''9'', ''1h'', ''PCOL R v S'', ''Possession'', ''Room''])))
     = Some (Some ''Possession'')
   \<and> fst (snd (fieldsFor5 (cellsTextOf (dataCellsOf
        (map plainCell [''9'', ''1h'', ''PCOL R v S'', ''Possession'', ''Room''])))
        (Some ''Possession''))) = Some ''PCOL R v S''
   \<and> nth_opt (strSplit '' '' ''PCOL R v S'') (Some 0) = Some ''PCOL''
   \<and> (\<exists>st'. step5 sampleDates ''T'' []
               \<lparr>headersIndex = noHeaders5\<lparr>h5startTime := Some (Num 0)\<rparr>, courtNameVar = None, dataOut = []\<rparr>
               (map plainCell [''9'', ''1h'', ''PCOL R v S'', ''Possession'', ''Room'']) = Inr st'
             \<and> dataOut st' = [])
   \<and> identifyTemplate possessionDoc5 = Some template5
   \<and> map_sum id (map ClaimNumber) (scrapeDataFromHtml sampleDates possessionDoc5) = Inr [''A1'']"
proof -
  let ?cells = "map plainCell [''9'', ''1h'', ''PCOL R v S'', ''Possession'', ''Room'']"
  let ?st = "\<lparr>headersIndex = noHeaders5\<lparr>h5startTime := Some (Num 0)\<rparr>, courtNameVar = None, dataOut = []\<rparr>"
  have e1: "map_sum id (map ClaimNumber) (extractDataTemplate5 sampleDates ''T'' possessionTable5 [] [])
     = Inr [''A1'']" by code_simp
  have e2: "pickHearingType (cellsTextOf (dataCellsOf ?cells)) = Some (Some ''Possession'')"
    by code_simp
  have e3: "fst (snd (fieldsFor5 (cellsTextOf (dataCellsOf ?cells)) (Some ''Possession'')))
     = Some ''PCOL R v S''" by code_simp
  have e4: "nth_opt (strSplit '' '' ''PCOL R v S'') (Some 0) = Some ''PCOL''" by code_simp
  have e5: "identifyTemplate possessionDoc5 = Some template5" by code_simp
  have e6: "map_sum id (map ClaimNumber) (scrapeDataFromHtml sampleDates possessionDoc5) = Inr [''A1'']"
    by code_simp
  from template5_never_PCOL[of sampleDates "''T''" possessionTable5 "[]" "[]" ?cells
      "Some ''Possession''" "''PCOL R v S''" "''T''" ?st possessionDoc5] e2 e3 e4
  have "\<exists>st'. step5 sampleDates ''T'' [] ?st ?cells = Inr st' \<and> dataOut st' = dataOut ?st"
    by blast
  then have "\<exists>st'. step5 sampleDates ''T'' [] ?st ?cells = Inr st' \<and> dataOut st' = []"
    by simp
  with e1 e2 e3 e4 e5 e6 show ?thesis by blast
qed

text \<open>
  C7, as stated, fails: \<open>extractDataTemplate7\<close> returns a record whose claim number is
  \<open>PCOL\<close> for a possession case whose reference is \<open>PCOL\<close>.
\<close>

theorem template7_emits_PCOL:
  "map_sum id (map ClaimNumber) (extractDataTemplate7 sampleDates ''T'' pcolTable7 [] [])
     = Inr [''PCOL'']"
  by code_simp

text \<open>
  C9.  \<open>scrapeDataFromHtml\<close> always returns a list of records and never raises.  It
  returns the empty list when \<open>identifyTemplate\<close> returns \<open>null\<close>, and when no table of
  the document passes the filter of the template.  \<open>identifyTemplate\<close> returns \<open>null\<close> or
  one of the four template identifiers.
\<close>

theorem scrape_never_raises:
  "(\<exists>recs. scrapeDataFromHtml D doc = Inr recs)
   \<and> identifyTemplate doc \<in> {None, Some template4, Some template4a, Some template5, Some template7}
   \<and> (identifyTemplate doc = None \<longrightarrow> scrapeDataFromHtml D doc = Inr [])
   \<and> (identifyTemplate doc = Some t \<and> (\<forall>tbl\<in>set (docTables doc). \<not> tableFilter t tbl)
      \<longrightarrow> scrapeDataFromHtml D doc = Inr [])"
proof (intro conjI impI)
  show "\<exists>recs. scrapeDataFromHtml D doc = Inr recs" by (rule scrape_total)
next
  show "identifyTemplate doc \<in> {None, Some template4, Some template4a, Some template5, Some template7}"
  proof (cases "identifyTemplate doc")
    case None
    then show ?thesis by simp
  next
    case (Some t')
    then show ?thesis by (cases t') simp_all
  qed
next
  assume "identifyTemplate doc = None"
  then show "scrapeDataFromHtml D doc = Inr []" by (simp add: scrapeDataFromHtml_def)
next
  assume a: "identifyTemplate doc = Some t \<and> (\<forall>tbl\<in>set (docTables doc). \<not> tableFilter t tbl)"
  then have "locateTables t doc = []" using locateTables_none by blast
  with a show "scrapeDataFromHtml D doc = Inr []" by (simp add: scrapeDataFromHtml_def Let_def)
qed

theorem scrape_never_raises_witness:
  "identifyTemplate emptyDoc = None \<and> scrapeDataFromHtml sampleDates emptyDoc = Inr []
   \<and> identifyTemplate bareDoc = Some template4a
   \<and> list_all (\<lambda>tbl. \<not> tableFilter template4a tbl) (docTables bareDoc)
   \<and> scrapeDataFromHtml sampleDates bareDoc = Inr []"
proof -
  have e1: "identifyTemplate emptyDoc = None" by code_simp
  have e2: "identifyTemplate bareDoc = Some template4a" by code_simp
  have e3: "list_all (\<lambda>tbl. \<not> tableFilter template4a tbl) (docTables bareDoc)" by code_simp
  then have e4: "\<forall>tbl\<in>set (docTables bareDoc). \<not> tableFilter template4a tbl"
    by (simp add: list_all_iff)
  from scrape_never_raises[of sampleDates emptyDoc] e1
  have r1: "scrapeDataFromHtml sampleDates emptyDoc = Inr []" by blast
  from scrape_never_raises[of sampleDates bareDoc template4a] e2 e4
  have r2: "scrapeDataFromHtml sampleDates bareDoc = Inr []" by blast
  from e1 e2 e3 r1 r2 show ?thesis by blast
qed

text \<open>
  C10.  In each of the four row extractors the argument \<open>courtName\<close> has no influence on
  the result, and the court name of every record returned is the location that the
  pattern \<open>CourtServe: <location> County Court\<close> finds in the title of the document, or
  the empty string when the title does not match.
\<close>

theorem courtName_from_title_only:
  "extractDataTemplate4 D title tbl courtName1 courtDate
     = extractDataTemplate4 D title tbl courtName2 courtDate
   \<and> extractDataTemplate4a D title tbl courtName1 courtDate
     = extractDataTemplate4a D title tbl courtName2 courtDate
   \<and> extractDataTemplate5 D title tbl courtName1 courtDate
     = extractDataTemplate5 D title tbl courtName2 courtDate
   \<and> extractDataTemplate7 D title tbl courtName1 courtDate
     = extractDataTemplate7 D title tbl courtName2 courtDate
   \<and> (\<forall>r\<in>set (extractDataTemplate4 D title tbl courtName1 courtDate).
         CourtName r = courtNameOfTitle title)
   \<and> (\<exists>recs. extractDataTemplate4a D title tbl courtName1 courtDate = Inr recs
         \<and> (\<forall>r\<in>set recs. CourtName r = courtNameOfTitle title))
   \<and> (\<exists>recs. extractDataTemplate5 D title tbl courtName1 courtDate = Inr recs
         \<and> (\<forall>r\<in>set recs. CourtName r = courtNameOfTitle title))
   \<and> (\<exists>recs. extractDataTemplate7 D title tbl courtName1 courtDate = Inr recs
         \<and> (\<forall>r\<in>set recs. CourtName r = courtNameOfTitle title))"
proof (intro conjI)
  show "extractDataTemplate4 D title tbl courtName1 courtDate
     = extractDataTemplate4 D title tbl courtName2 courtDate" by (rule extractDataTemplate4_courtName)
  show "extractDataTemplate4a D title tbl courtName1 courtDate
     = extractDataTemplate4a D title tbl courtName2 courtDate" by (rule extractDataTemplate4a_courtName)
  show "extractDataTemplate5 D title tbl courtName1 courtDate
     = extractDataTemplate5 D title tbl courtName2 courtDate" by (rule extractDataTemplate5_courtName)
  show "extractDataTemplate7 D title tbl courtName1 courtDate
     = extractDataTemplate7 D title tbl courtName2 courtDate" by (rule extractDataTemplate7_courtName)
  show "\<forall>r\<in>set (extractDataTemplate4 D title tbl courtName1 courtDate).
         CourtName r = courtNameOfTitle title"
    using extractDataTemplate4_records[of D title tbl courtName1 courtDate]
    by (simp add: fromTitle_def courtNameOfTitle_def)
  show "\<exists>recs. extractDataTemplate4a D title tbl courtName1 courtDate = Inr recs
         \<and> (\<forall>r\<in>set recs. CourtName r = courtNameOfTitle title)"
    using extractDataTemplate4a_total[of D title tbl courtName1 courtDate]
      extractDataTemplate4a_records[of D title tbl courtName1 courtDate]
    by (auto simp: fromTitle_def courtNameOfTitle_def)
  show "\<exists>recs. extractDataTemplate5 D title tbl courtName1 courtDate = Inr recs
         \<and> (\<forall>r\<in>set recs. CourtName r = courtNameOfTitle title)"
    using extractDataTemplate5_total[of D title tbl courtName1 courtDate]
      extractDataTemplate5_records[of D title tbl courtName1 courtDate]
    by (auto simp: fromTitle_def courtNameOfTitle_def)
  show "\<exists>recs. extractDataTemplate7 D title tbl courtName1 courtDate = Inr recs
         \<and> (\<forall>r\<in>set recs. CourtName r = courtNameOfTitle title)"
    using extractDataTemplate7_total[of D title tbl courtName1 courtDate]
      extractDataTemplate7_records[of D title tbl courtName1 courtDate]
    by (auto simp: fromTitle_def courtNameOfTitle_def)
qed

theorem courtName_from_title_only_witness:
  "courtNameOfTitle leedsTitle = ''Leeds'' \<and> courtNameOfTitle ''T'' = []
   \<and> map CourtName (extractDataTemplate4 sampleDates leedsTitle oneRowTable4 ''Hull'' []) = [''Leeds'']
   \<and> map CourtName (extractDataTemplate4 sampleDates leedsTitle oneRowTable4 ''York'' []) = [''Leeds'']
   \<and> map_sum id (map CourtName) (extractDataTemplate4a sampleDates leedsTitle oneRowTable4a ''Hull'' [])
     = Inr [''Leeds'']
   \<and> map_sum id (map CourtName) (extractDataTemplate5 sampleDates leedsTitle possessionTable5 ''Hull'' [])
     = Inr [''Leeds'']
   \<and> map_sum id (map CourtName) (extractDataTemplate7 sampleDates leedsTitle pcolTable7 ''Hull'' [])
     = Inr [''Leeds'']"
proof -
  have e0: "courtNameOfTitle leedsTitle = ''Leeds''" "courtNameOfTitle ''T'' = []" by code_simp+
  have e4: "map CourtName (extractDataTemplate4 sampleDates leedsTitle oneRowTable4 ''Hull'' []) = [''Leeds'']"
    by code_simp
  have e4a: "map_sum id (map CourtName) (extractDataTemplate4a sampleDates leedsTitle oneRowTable4a ''Hull'' [])
     = Inr [''Leeds'']" by code_simp
  have e5: "map_sum id (map CourtName) (extractDataTemplate5 sampleDates leedsTitle possessionTable5 ''Hull'' [])
     = Inr [''Leeds'']" by code_simp
  have e7: "map_sum id (map CourtName) (extractDataTemplate7 sampleDates leedsTitle pcolTable7 ''Hull'' [])
     = Inr [''Leeds'']" by code_simp
  from courtName_from_title_only[of sampleDates leedsTitle oneRowTable4 "''York''" "[]" "''Hull''"] e4
  have "map CourtName (extractDataTemplate4 sampleDates leedsTitle oneRowTable4 ''York'' []) = [''Leeds'']"
    by simp
  with e0 e4 e4a e5 e7 show ?thesis by blast
qed




text \<open>
  C4, as the code has it.  In \<open>extractDataTemplate4a\<close> the text of a cell is the join, by
  \<open>" | "\<close>, of its paragraphs, each trimmed and with its white space collapsed, the empty
  ones left out.  Every data row gives one record.  Its claim number is the whole text of
  the cell at position 1, and its duration, hearing type and hearing channel are
  \<open>Not Provided\<close>.  For a data row of exactly 3 cells the third cell is cut at the first
  \<open>" | "\<close> into claimant and defendant, both trimmed, an empty part becoming
  \<open>Not Provided\<close>.  For a data row of any other number of cells, 4 among them, claimant and
  defendant are the cells at positions 2 and 3, an empty or missing cell replaced by
  \<open>Not Provided\<close>, with the pipe characters removed.  The table of the end-to-end scenario
  yields one record, whose claim number is the whole second cell \<open>CL123 | John Smith\<close>,
  whose claimant is \<open>Jane Doe\<close>, and whose defendant and duration are \<open>Not Provided\<close>.
\<close>

theorem template4a_cells_and_parties:
  "cellsText4a cells
     = map (\<lambda>c. strJoin '' | ''
                (filter (\<lambda>lineText. lineText \<noteq> []) (map (\<lambda>p. collapseWs (trim p)) (cellParagraphs c))))
         cells
   \<and> (\<exists>cn rec. dataRow4a D titlename courtDate cellsText = Inr (cn, rec)
         \<and> ClaimNumber rec = cellAt cellsText 1
         \<and> Duration rec = ''Not Provided''
         \<and> HearingType rec = ''Not Provided''
         \<and> HearingChannel rec = ''Not Provided''
         \<and> (length cellsText = 3
            \<longrightarrow> (Claimant rec, Defendant rec)
              = (case firstCut '' | '' (cellsText ! 2) of
                   None \<Rightarrow> (orNotProvided (trim (cellsText ! 2)), ''Not Provided'')
                 | Some (x, y) \<Rightarrow> (orNotProvided (trim x), orNotProvided (trim y))))
         \<and> (length cellsText \<noteq> 3
            \<longrightarrow> Claimant rec = stripPipes (orNotProvided (cellAt cellsText 2))
              \<and> Defendant rec = stripPipes (orNotProvided (cellAt cellsText 3))))
   \<and> (dataRowOf st cells
      \<longrightarrow> (\<exists>cn rec. dataRow4a D titlename courtDate (cellsText4a cells) = Inr (cn, rec)
            \<and> step4a D titlename courtDate st cells
              = Inr (st\<lparr>courtNameVar := cn, dataOut := dataOut st @ [rec]\<rparr>)))
   \<and> map_sum id (map ClaimNumber) (extractDataTemplate4a D title table88 courtName courtDate)
     = Inr [''CL123 | John Smith'']
   \<and> map_sum id (map Claimant) (extractDataTemplate4a D title table88 courtName courtDate)
     = Inr [''Jane Doe'']
   \<and> map_sum id (map Defendant) (extractDataTemplate4a D title table88 courtName courtDate)
     = Inr [''Not Provided'']
   \<and> map_sum id (map Duration) (extractDataTemplate4a D title table88 courtName courtDate)
     = Inr [''Not Provided'']"
proof (intro conjI impI)
  show "cellsText4a cells
     = map (\<lambda>c. strJoin '' | ''
                (filter (\<lambda>lineText. lineText \<noteq> []) (map (\<lambda>p. collapseWs (trim p)) (cellParagraphs c))))
         cells"
    by (simp add: cellsText4a_def cellLines_def)
next
  obtain c d where p: "parties4a cellsText = Inr (c, d)" using parties4a_total by blast
  have three: "(c, d) = (case firstCut '' | '' (cellsText ! 2) of
                   None \<Rightarrow> (orNotProvided (trim (cellsText ! 2)), ''Not Provided'')
                 | Some (x, y) \<Rightarrow> (orNotProvided (trim x), orNotProvided (trim y)))"
    if "length cellsText = 3"
    using parties4a_three[OF that] p
    by (cases "firstCut '' | '' (cellsText ! 2)")
      (auto simp: orElse_Some orNotProvided_def notProvided_def)
  have other: "c = stripPipes (orNotProvided (cellAt cellsText 2))
      \<and> d = stripPipes (orNotProvided (cellAt cellsText 3))"
    if "length cellsText \<noteq> 3"
    using parties4a_other[OF that] p by simp
  show "\<exists>cn rec. dataRow4a D titlename courtDate cellsText = Inr (cn, rec)
         \<and> ClaimNumber rec = cellAt cellsText 1
         \<and> Duration rec = ''Not Provided''
         \<and> HearingType rec = ''Not Provided''
         \<and> HearingChannel rec = ''Not Provided''
         \<and> (length cellsText = 3
            \<longrightarrow> (Claimant rec, Defendant rec)
              = (case firstCut '' | '' (cellsText ! 2) of
                   None \<Rightarrow> (orNotProvided (trim (cellsText ! 2)), ''Not Provided'')
                 | Some (x, y) \<Rightarrow> (orNotProvided (trim x), orNotProvided (trim y))))
         \<and> (length cellsText \<noteq> 3
            \<longrightarrow> Claimant rec = stripPipes (orNotProvided (cellAt cellsText 2))
              \<and> Defendant rec = stripPipes (orNotProvided (cellAt cellsText 3)))"
    unfolding dataRow4a_eq[OF p, of D titlename courtDate]
    using three other by simp
next
  assume row: "dataRowOf st cells"
  obtain cn rec where r: "dataRow4a D titlename courtDate (cellsText4a cells) = Inr (cn, rec)"
    using dataRow4a_total[of D titlename courtDate "cellsText4a cells"] by auto
  from step4a_data_row[OF row r] r
  show "\<exists>cn rec. dataRow4a D titlename courtDate (cellsText4a cells) = Inr (cn, rec)
            \<and> step4a D titlename courtDate st cells
              = Inr (st\<lparr>courtNameVar := cn, dataOut := dataOut st @ [rec]\<rparr>)"
    by blast
next
  show "map_sum id (map ClaimNumber) (extractDataTemplate4a D title table88 courtName courtDate)
     = Inr [''CL123 | John Smith'']" by code_simp
next
  show "map_sum id (map Claimant) (extractDataTemplate4a D title table88 courtName courtDate)
     = Inr [''Jane Doe'']" by code_simp
next
  show "map_sum id (map Defendant) (extractDataTemplate4a D title table88 courtName courtDate)
     = Inr [''Not Provided'']" by code_simp
next
  show "map_sum id (map Duration) (extractDataTemplate4a D title table88 courtName courtDate)
     = Inr [''Not Provided'']" by code_simp
qed

theorem template4a_cells_and_parties_witness:
  "length [''09:00'', ''CL123'', ''John Smith | Jane Doe''] = 3
   \<and> (\<exists>cn rec. dataRow4a sampleDates ''T'' [] [''09:00'', ''CL123'', ''John Smith | Jane Doe'']
                  = Inr (cn, rec)
              \<and> ClaimNumber rec = ''CL123''
              \<and> (Claimant rec, Defendant rec) = (''John Smith'', ''Jane Doe''))
   \<and> length [''09:00'', ''CL123'', ''John | Smith'', []] \<noteq> 3
   \<and> (\<exists>cn rec. dataRow4a sampleDates ''T'' [] [''09:00'', ''CL123'', ''John | Smith'', []]
                  = Inr (cn, rec)
              \<and> ClaimNumber rec = ''CL123''
              \<and> Claimant rec = ''John  Smith'' \<and> Defendant rec = ''Not Provided'')
   \<and> dataRowOf headerSeen4a fourCells
   \<and> (\<exists>cn rec. dataRow4a sampleDates ''T'' [] (cellsText4a fourCells) = Inr (cn, rec)
              \<and> ClaimNumber rec = ''A1''
              \<and> step4a sampleDates ''T'' [] headerSeen4a fourCells
                = Inr (headerSeen4a\<lparr>courtNameVar := cn, dataOut := dataOut headerSeen4a @ [rec]\<rparr>))"
proof -
  let ?three = "[''09:00'', ''CL123'', ''John Smith | Jane Doe'']"
  let ?four = "[''09:00'', ''CL123'', ''John | Smith'', []]"
  have l3: "length ?three = 3" and l4: "length ?four \<noteq> 3" by simp_all
  have c3: "(case firstCut '' | '' (?three ! 2) of
                   None \<Rightarrow> (orNotProvided (trim (?three ! 2)), ''Not Provided'')
                 | Some (x, y) \<Rightarrow> (orNotProvided (trim x), orNotProvided (trim y)))
     = (''John Smith'', ''Jane Doe'')" by code_simp
  have n3: "cellAt ?three 1 = ''CL123''" and n4: "cellAt ?four 1 = ''CL123''" by code_simp+
  have c4: "stripPipes (orNotProvided (cellAt ?four 2)) = ''John  Smith''"
    "stripPipes (orNotProvided (cellAt ?four 3)) = ''Not Provided''" by code_simp+
  have row: "dataRowOf headerSeen4a fourCells" by code_simp
  have n5: "cellAt (cellsText4a fourCells) 1 = ''A1''" by code_simp
  from template4a_cells_and_parties[of _ sampleDates "''T''" "[]" ?three] l3
  have r3: "\<exists>cn rec. dataRow4a sampleDates ''T'' [] ?three = Inr (cn, rec)
              \<and> ClaimNumber rec = ''CL123''
              \<and> (Claimant rec, Defendant rec) = (''John Smith'', ''Jane Doe'')"
    unfolding c3 n3 by blast
  from template4a_cells_and_parties[of _ sampleDates "''T''" "[]" ?four] l4
  have r4: "\<exists>cn rec. dataRow4a sampleDates ''T'' [] ?four = Inr (cn, rec)
              \<and> ClaimNumber rec = ''CL123''
              \<and> Claimant rec = ''John  Smith'' \<and> Defendant rec = ''Not Provided''"
    unfolding c4 n4 by blast
  from template4a_cells_and_parties[of fourCells sampleDates "''T''" "[]" "cellsText4a fourCells" headerSeen4a]
    row
  obtain cn rec cn' rec' where
    a: "dataRow4a sampleDates ''T'' [] (cellsText4a fourCells) = Inr (cn, rec)"
      "ClaimNumber rec = cellAt (cellsText4a fourCells) 1"
    and b: "dataRow4a sampleDates ''T'' [] (cellsText4a fourCells) = Inr (cn', rec')"
      "step4a sampleDates ''T'' [] headerSeen4a fourCells
         = Inr (headerSeen4a\<lparr>courtNameVar := cn', dataOut := dataOut headerSeen4a @ [rec']\<rparr>)"
    by blast
  from a(1) b(1) have "cn' = cn" "rec' = rec" by simp_all
  with a b(2) n5
  have r5: "\<exists>cn rec. dataRow4a sampleDates ''T'' [] (cellsText4a fourCells) = Inr (cn, rec)
              \<and> ClaimNumber rec = ''A1''
              \<and> step4a sampleDates ''T'' [] headerSeen4a fourCells
                = Inr (headerSeen4a\<lparr>courtNameVar := cn, dataOut := dataOut headerSeen4a @ [rec]\<rparr>)"
    by (intro exI[of _ cn] exI[of _ rec]) simp
  from l3 r3 l4 r4 row r5 show ?thesis by blast
qed

text \<open>
  C4, as stated, fails on its own scenario: the record has the claim number
  \<open>CL123 | John Smith\<close>, the claimant \<open>Jane Doe\<close> and the defendant \<open>Not Provided\<close>, not
  \<open>CL123\<close>, \<open>John Smith\<close> and \<open>Jane Doe\<close>.
\<close>

theorem scenario_record_differs:
  "map_sum id (map ClaimNumber) (extractDataTemplate4a sampleDates ''T'' table88 [] [])
     = Inr [''CL123 | John Smith'']
   \<and> map_sum id (map Claimant) (extractDataTemplate4a sampleDates ''T'' table88 [] [])
     = Inr [''Jane Doe'']
   \<and> map_sum id (map Defendant) (extractDataTemplate4a sampleDates ''T'' table88 [] [])
     = Inr [''Not Provided'']
   \<and> map_sum id (map ClaimNumber) (extractDataTemplate4a sampleDates ''T'' table88 [] [])
     \<noteq> Inr [''CL123'']"
  by code_simp

text \<open>
  C6, as the code has it.  For a string without a separator token (\<open>v\<close>, \<open>vs\<close>, \<open>-v-\<close>,
  \<open>-vs-\<close> or \<open>versus\<close> between white space), the splitter of \<open>extractDataTemplate5\<close> gives
  \<open>Not Provided\<close> for claimant and defendant alike.  The splitter of
  \<open>extractDataTemplate7\<close> gives the same when the string has no letter \<open>v\<close> at all; when it
  has one, the claimant is the whole trimmed string, without its pipe characters, and the
  defendant is \<open>Not Provided\<close>.  For \<open>Smith v Jones\<close> both give \<open>Smith\<close> and \<open>Jones\<close>.
\<close>

theorem splitters_without_separator:
  "(\<not> hasSeparator [''v'', ''vs'', ''-v-'', ''-vs-'', ''versus''] s
      \<longrightarrow> splitParties5 s = Inr (notProvided, notProvided)
        \<and> splitParties7 (Some s)
          = Inr (if containsCI ''v'' s then (stripPipes (trim s), notProvided)
                 else (notProvided, notProvided)))
   \<and> splitParties5 ''Smith v Jones'' = Inr (''Smith'', ''Jones'')
   \<and> splitParties7 (Some ''Smith v Jones'') = Inr (''Smith'', ''Jones'')"
proof (intro conjI impI)
  assume n: "\<not> hasSeparator [''v'', ''vs'', ''-v-'', ''-vs-'', ''versus''] s"
  from no_separator_no_match[OF n]
  show "splitParties5 s = Inr (notProvided, notProvided)" by (simp add: splitParties5_def)
  from no_separator_no_match(1)[OF n] have "rxSplit rxV s = [s]"
    by (rule rxSplit_no_match) (rule no_empty_sep(1))
  then show "splitParties7 (Some s)
          = Inr (if containsCI ''v'' s then (stripPipes (trim s), notProvided)
                 else (notProvided, notProvided))"
    by (simp add: splitParties7_def jsStr_def rxLooseV_iff partiesOf_single)
next
  show "splitParties5 ''Smith v Jones'' = Inr (''Smith'', ''Jones'')" by (rule smith_v_jones(1))
  show "splitParties7 (Some ''Smith v Jones'') = Inr (''Smith'', ''Jones'')" by (rule smith_v_jones(2))
qed

theorem splitters_without_separator_witness:
  "\<not> hasSeparator [''v'', ''vs'', ''-v-'', ''-vs-'', ''versus''] ''Steven Only''
   \<and> containsCI ''v'' ''Steven Only''
   \<and> splitParties5 ''Steven Only'' = Inr (''Not Provided'', ''Not Provided'')
   \<and> splitParties7 (Some ''Steven Only'') = Inr (''Steven Only'', ''Not Provided'')"
proof -
  have e1: "\<not> hasSeparator [''v'', ''vs'', ''-v-'', ''-vs-'', ''versus''] ''Steven Only''"
    by code_simp
  have e2: "containsCI ''v'' ''Steven Only''" by code_simp
  have e3: "stripPipes (trim ''Steven Only'') = ''Steven Only''" by code_simp
  from splitters_without_separator[of "''Steven Only''"] e1 e2 e3
  have "splitParties5 ''Steven Only'' = Inr (''Not Provided'', ''Not Provided'')"
    "splitParties7 (Some ''Steven Only'') = Inr (''Steven Only'', ''Not Provided'')"
    by (simp_all add: notProvided_def)
  with e1 e2 show ?thesis by blast
qed

text \<open>
  C6, as stated, fails: \<open>Smith Only\<close> has no separator token, and both splitters give the
  claimant \<open>Not Provided\<close>, not the trimmed input \<open>Smith Only\<close>.
\<close>

theorem smith_only_not_provided:
  "\<not> hasSeparator [''v'', ''vs'', ''-v-'', ''-vs-'', ''versus''] ''Smith Only''
   \<and> trim ''Smith Only'' = ''Smith Only''
   \<and> splitParties5 ''Smith Only'' = Inr (''Not Provided'', ''Not Provided'')
   \<and> splitParties7 (Some ''Smith Only'') = Inr (''Not Provided'', ''Not Provided'')
   \<and> splitParties5 ''Smith Only'' \<noteq> Inr (''Smith Only'', ''Not Provided'')"
  by code_simp

text \<open>
  C8.  When the body text of a document contains \<open>case\<close> followed by \<open>ref\<close>, and \<open>case\<close>
  followed by \<open>name\<close>, in any case and with any amount of white space between the two
  words, \<open>identifyTemplate\<close> returns \<open>template7\<close>, whatever else the document holds.
\<close>

theorem identifyTemplate_case_ref_first:
  "containsPhrase ''case'' ''ref'' (docBody doc) \<and> containsPhrase ''case'' ''name'' (docBody doc)
   \<longrightarrow> identifyTemplate doc = Some template7"
proof
  assume c: "containsPhrase ''case'' ''ref'' (docBody doc) \<and> containsPhrase ''case'' ''name'' (docBody doc)"
  have l: "list_all isLower ''case''" "list_all isLower ''ref''" "list_all isLower ''name''"
    by code_simp+
  from phrase_in_text_content[OF l(1) l(2)] phrase_in_text_content[OF l(1) l(3)] c
  have "rxTest rxCaseRef (bodyTextContent doc)" "rxTest rxCaseName (bodyTextContent doc)"
    by (simp_all add: rxCaseRef_def rxCaseName_def bodyTextContent_def)
  then show "identifyTemplate doc = Some template7" by (simp add: identifyTemplate_def Let_def)
qed

theorem identifyTemplate_case_ref_first_witness:
  "containsPhrase ''case'' ''ref'' (docBody overlapDoc)
   \<and> containsPhrase ''case'' ''name'' (docBody overlapDoc)
   \<and> rxTest rxStartTime (bodyTextContent overlapDoc) \<and> rxTest rxDuration (bodyTextContent overlapDoc)
   \<and> rxTest rxCaseDetails (bodyTextContent overlapDoc)
   \<and> rxTest rxHearingType (bodyTextContent overlapDoc)
   \<and> rxTest rxHearingChannel (bodyTextContent overlapDoc)
   \<and> rxTest rxClaimNumber (bodyTextContent overlapDoc)
   \<and> identifyTemplate overlapDoc = Some template7"
proof -
  have e1: "containsPhrase ''case'' ''ref'' (docBody overlapDoc)" by code_simp
  have e2: "containsPhrase ''case'' ''name'' (docBody overlapDoc)" by code_simp
  have e3: "rxTest rxStartTime (bodyTextContent overlapDoc)" by code_simp
  have e4: "rxTest rxDuration (bodyTextContent overlapDoc)" by code_simp
  have e5: "rxTest rxCaseDetails (bodyTextContent overlapDoc)" by code_simp
  have e6: "rxTest rxHearingType (bodyTextContent overlapDoc)" by code_simp
  have e7: "rxTest rxHearingChannel (bodyTextContent overlapDoc)" by code_simp
  have e8: "rxTest rxClaimNumber (bodyTextContent overlapDoc)" by code_simp
  from identifyTemplate_case_ref_first[of overlapDoc] e1 e2
  have "identifyTemplate overlapDoc = Some template7" by blast
  with e1 e2 e3 e4 e5 e6 e7 e8 show ?thesis by blast
qed

end
